theory Spec2Isabelle
  imports Main "HOL-Library.AList"
begin

section \<open>Python values, strings and exceptions\<close>

text \<open>
  The repository is Python. A Python \<open>str\<close> is modelled as a \<open>string\<close> whose
  characters are the code points U+0000 to U+00FF; on this range the character classes
  of Python (\<open>str.isnumeric\<close>, \<open>str.isspace\<close>, the digits \<open>int()\<close> accepts) are
  small tables, written out below. Python integers are \<open>int\<close>. An exception that
  leaves a function is a value \<open>Inl e\<close> of a sum type.
\<close>

datatype error =
    AssertionError
  | ValueError
  | KeyError
  | TypeError
  | AttributeError
  | UpdateError

text \<open>
  \<open>str.zfill(width)\<close>: a string at least \<open>width\<close> long is returned as it is;
  otherwise zeros are inserted on the left, after a leading sign if there is one.
\<close>

definition zfill :: "nat \<Rightarrow> string \<Rightarrow> string" where
  "zfill width s =
     (if width \<le> length s then s
      else (case s of
              [] \<Rightarrow> replicate width (CHR ''0'')
            | c # cs \<Rightarrow>
                if c = CHR ''+'' \<or> c = CHR ''-''
                then c # replicate (width - length s) (CHR ''0'') @ cs
                else replicate (width - length s) (CHR ''0'') @ s))"

text \<open>
  The decimal digits \<open>0\<close> to \<open>9\<close> are the only characters below U+0100 that
  \<open>int()\<close> reads. \<open>str.isnumeric\<close> accepts six more: the superscripts U+00B2, U+00B3,
  U+00B9 and the fractions U+00BC, U+00BD, U+00BE.
\<close>

definition isdecimal_chr :: "char \<Rightarrow> bool" where
  "isdecimal_chr c = (48 \<le> (of_char c :: nat) \<and> (of_char c :: nat) \<le> 57)"

definition isnumeric_chr :: "char \<Rightarrow> bool" where
  "isnumeric_chr c =
     (isdecimal_chr c \<or>
      c \<in> set [CHR 0xB2, CHR 0xB3, CHR 0xB9, CHR 0xBC, CHR 0xBD, CHR 0xBE])"

definition isnumeric :: "string \<Rightarrow> bool" where
  "isnumeric s = (s \<noteq> [] \<and> list_all isnumeric_chr s)"

definition digit_of_chr :: "char \<Rightarrow> int" where
  "digit_of_chr c = int (of_char c) - 48"

text \<open>\<open>int(c)\<close> for a one-character string: the digit, or \<open>ValueError\<close>.\<close>

definition int_of_chr :: "char \<Rightarrow> error + int" where
  "int_of_chr c = (if isdecimal_chr c then Inr (digit_of_chr c) else Inl ValueError)"

section \<open>The ID control digit\<close>

text \<open>
  \<open>_compute_id_control_digit\<close> (BaaserowAutomationFile.py, lines 9 to 28). The loop
  \<open>for i in range(9)\<close> is \<open>control_loop\<close> over the index list \<open>[0..<9]\<close> with the running
  \<open>total\<close> as accumulator; \<open>int(id_num[i])\<close> may raise.
\<close>

fun control_loop :: "string \<Rightarrow> nat list \<Rightarrow> int \<Rightarrow> error + int" where
  "control_loop id_num [] tot = Inr tot"
| "control_loop id_num (i # rest) tot =
     (case int_of_chr (id_num ! i) of
        Inl e \<Rightarrow> Inl e
      | Inr val \<Rightarrow>
          control_loop id_num rest
            (if i mod 2 = 0 then tot + val
             else if val < 5 then tot + 2 * val
             else tot + ((2 * val) mod 10) + 1))"

definition compute_id_control_digit :: "string \<Rightarrow> error + int" where
  "compute_id_control_digit s =
     (let id_num = zfill 9 s in
      if \<not> (length id_num = 9 \<and> isnumeric id_num) then Inl AssertionError
      else (case control_loop id_num [0..<9] 0 of
              Inl e \<Rightarrow> Inl e
            | Inr tot \<Rightarrow> Inr ((10 - tot mod 10) mod 10)))"

text \<open>
  The arithmetic as the specification words it: at an even index the digit, at an odd
  index the doubled digit when that is below 10 and the doubled digit minus 9 otherwise;
  the check digit is 10 minus the sum modulo 10, again modulo 10.
\<close>

definition spec_term :: "nat \<Rightarrow> int \<Rightarrow> int" where
  "spec_term i d = (if even i then d else if 2 * d < 10 then 2 * d else 2 * d - 9)"

definition spec_check_digit :: "string \<Rightarrow> int" where
  "spec_check_digit id_num =
     (10 - (\<Sum>i<9. spec_term i (digit_of_chr (id_num ! i))) mod 10) mod 10"

lemma int_of_chr_decimal:
  "isdecimal_chr c \<Longrightarrow> int_of_chr c = Inr (digit_of_chr c)"
  by (simp add: int_of_chr_def)

lemma digit_of_chr_range:
  "isdecimal_chr c \<Longrightarrow> 0 \<le> digit_of_chr c \<and> digit_of_chr c \<le> 9"
  by (auto simp: isdecimal_chr_def digit_of_chr_def)

lemma double_digit:
  fixes d :: int
  assumes "0 \<le> d" "d \<le> 9"
  shows "(if d < 5 then tot + 2 * d else tot + (2 * d) mod 10 + 1)
           = tot + (if 2 * d < 10 then 2 * d else 2 * d - 9)"
proof (cases "d < 5")
  case True
  then show ?thesis by simp
next
  case False
  then have "d = 5 \<or> d = 6 \<or> d = 7 \<or> d = 8 \<or> d = 9"
    using assms by arith
  then show ?thesis by auto
qed

lemma control_loop_decimal:
  assumes "\<forall>i\<in>set idxs. isdecimal_chr (id_num ! i)"
  shows "control_loop id_num idxs tot =
           Inr (tot + (\<Sum>i\<leftarrow>idxs. spec_term i (digit_of_chr (id_num ! i))))"
  using assms
proof (induction idxs arbitrary: tot)
  case Nil
  then show ?case by simp
next
  case (Cons i rest)
  have dec: "isdecimal_chr (id_num ! i)"
    using Cons.prems by simp
  have rng: "0 \<le> digit_of_chr (id_num ! i) \<and> digit_of_chr (id_num ! i) \<le> 9"
    using dec by (rule digit_of_chr_range)
  have step:
    "(if i mod 2 = 0 then tot + digit_of_chr (id_num ! i)
      else if digit_of_chr (id_num ! i) < 5 then tot + 2 * digit_of_chr (id_num ! i)
      else tot + ((2 * digit_of_chr (id_num ! i)) mod 10) + 1)
     = tot + spec_term i (digit_of_chr (id_num ! i))"
    using double_digit [of "digit_of_chr (id_num ! i)" tot] rng
    by (simp add: spec_term_def even_iff_mod_2_eq_zero)
  have "control_loop id_num (i # rest) tot =
          control_loop id_num rest (tot + spec_term i (digit_of_chr (id_num ! i)))"
    using step by (simp add: int_of_chr_decimal [OF dec])
  also have "\<dots> = Inr (tot + spec_term i (digit_of_chr (id_num ! i))
                      + (\<Sum>j\<leftarrow>rest. spec_term j (digit_of_chr (id_num ! j))))"
    using Cons.prems by (intro Cons.IH) simp
  finally show ?case by (simp add: add.assoc)
qed

lemma isnumeric_decimal:
  "s \<noteq> [] \<Longrightarrow> \<forall>c\<in>set s. isdecimal_chr c \<Longrightarrow> isnumeric s"
  by (auto simp: isnumeric_def isnumeric_chr_def list_all_iff)

lemma control_digit_returns:
  assumes "length (zfill 9 s) = 9" and "\<forall>c\<in>set (zfill 9 s). isdecimal_chr c"
  shows "compute_id_control_digit s = Inr (spec_check_digit (zfill 9 s))"
proof -
  let ?n = "zfill 9 s"
  have "?n \<noteq> []"
    using assms(1) by auto
  then have num: "isnumeric ?n"
    using assms(2) by (rule isnumeric_decimal)
  have "\<forall>i\<in>set [0..<9]. isdecimal_chr (?n ! i)"
    using assms by simp
  then have "control_loop ?n [0..<9] 0 =
               Inr (0 + (\<Sum>i\<leftarrow>[0..<9]. spec_term i (digit_of_chr (?n ! i))))"
    by (rule control_loop_decimal)
  moreover have "(\<Sum>i\<leftarrow>[0..<9]. spec_term i (digit_of_chr (?n ! i)))
                   = (\<Sum>i<9. spec_term i (digit_of_chr (?n ! i)))"
    using sum_list_distinct_conv_sum_set
            [of "[0..<9]" "\<lambda>i. spec_term i (digit_of_chr (?n ! i))"]
    by (simp add: lessThan_atLeast0 del: upt.simps upt_Suc)
  ultimately show ?thesis
    using assms(1) num
    by (simp add: compute_id_control_digit_def spec_check_digit_def Let_def
             del: upt.simps upt_Suc)
qed

lemma control_digit_assertion:
  assumes "length (zfill 9 s) \<noteq> 9 \<or> \<not> isnumeric (zfill 9 s)"
  shows "compute_id_control_digit s = Inl AssertionError"
  using assms by (auto simp: compute_id_control_digit_def Let_def)

lemma zfill_length: "length (zfill 9 s) = max 9 (length s)"
  by (cases s) (auto simp: zfill_def)

text \<open>
  C1. For every input that, padded on the left with zeros to length 9, is exactly nine
  digit characters, \<open>_compute_id_control_digit\<close> returns \<open>(10 - T) mod 10\<close>, where
  \<open>T\<close> is the sum over the nine positions of the digit itself at even indices and, at
  odd indices, of the doubled digit when that is below 10 and of the doubled digit minus
  9 otherwise, taken modulo 10. The result lies between 0 and 9; 0 marks a valid ID.
\<close>

theorem control_digit_formula:
  assumes "length (zfill 9 s) = 9" and "\<forall>c\<in>set (zfill 9 s). isdecimal_chr c"
  shows "compute_id_control_digit s =
           Inr ((10 - (\<Sum>i<9. spec_term i (digit_of_chr (zfill 9 s ! i))) mod 10) mod 10)"
  using control_digit_returns [OF assms] by (simp add: spec_check_digit_def)

theorem control_digit_formula_witness:
  "length (zfill 9 ''12345678'') = 9
   \<and> list_all isdecimal_chr (zfill 9 ''12345678'')
   \<and> compute_id_control_digit ''12345678'' = Inr 6"
proof -
  have l: "length (zfill 9 ''12345678'') = 9"
    by (simp add: zfill_def)
  have d: "\<forall>c\<in>set (zfill 9 ''12345678''). isdecimal_chr c"
    by (simp add: zfill_def isdecimal_chr_def)
  have z: "zfill 9 ''12345678'' = ''012345678''"
    by (simp add: zfill_def)
  have v: "spec_check_digit ''012345678'' = 6"
    by code_simp
  show ?thesis
    using control_digit_formula [OF l d] l d z v
    by (simp add: spec_check_digit_def list_all_iff)
qed

text \<open>
  C9. A padded string that is too long or holds a character that is not numeric fails
  the assertion (\<open>control_digit_assertion\<close>), and nine decimal digits return
  (\<open>control_digit_returns\<close>). But the assertion tests \<open>str.isnumeric\<close>, which also
  accepts characters that \<open>int()\<close> refuses: with a superscript two as last character
  the assertion passes and the function leaves with \<open>ValueError\<close>, which is neither
  the assertion error nor a normal return.
\<close>

theorem control_digit_superscript_raises_value_error:
  "length (zfill 9 (''12345678'' @ [CHR 0xB2])) = 9
   \<and> isnumeric (zfill 9 (''12345678'' @ [CHR 0xB2]))
   \<and> compute_id_control_digit (''12345678'' @ [CHR 0xB2]) = Inl ValueError"
  by (simp add: compute_id_control_digit_def zfill_def isnumeric_def isnumeric_chr_def
        isdecimal_chr_def int_of_chr_def digit_of_chr_def upt_rec)

section \<open>Rows\<close>

text \<open>
  A cell of a row is null, a text or a list of row ids (a link column). A row is its id
  and its cells by column name, in column order. Reading a column the row does not have
  raises \<open>KeyError\<close>; assigning to a column sets the cell.
\<close>

datatype val = VNone | VStr string | VIds "nat list"

definition truthy :: "val \<Rightarrow> bool" where
  "truthy v = (case v of VNone \<Rightarrow> False | VStr s \<Rightarrow> s \<noteq> [] | VIds ids \<Rightarrow> ids \<noteq> [])"

definition is_text :: "val \<Rightarrow> bool" where
  "is_text v = (case v of VStr s \<Rightarrow> True | _ \<Rightarrow> False)"

definition text_of :: "val \<Rightarrow> string" where
  "text_of v = (case v of VStr s \<Rightarrow> s | _ \<Rightarrow> [])"

record row =
  rid :: nat
  cells :: "(string \<times> val) list"

definition getitem :: "row \<Rightarrow> string \<Rightarrow> error + val" where
  "getitem r k = (case map_of (cells r) k of None \<Rightarrow> Inl KeyError | Some v \<Rightarrow> Inr v)"

definition setitem :: "string \<Rightarrow> val \<Rightarrow> row \<Rightarrow> row" where
  "setitem k v r = r\<lparr>cells := AList.update k v (cells r)\<rparr>"

definition NormalizedPhoneNumber :: string where
  "NormalizedPhoneNumber = ''_NormalizedPhoneNumber''"

text \<open>
  A Python \<open>dict\<close> keeps its keys in insertion order: an association list with
  distinct keys, updated in place (\<open>AList.update\<close>) and read with \<open>map_of\<close>. The keys
  here are phone and training cells, which are texts or null.
\<close>

type_synonym 'v pydict = "(val \<times> 'v) list"

section \<open>The duplicate finder\<close>

text \<open>
  \<open>find_duplicates\<close> (lines 288 to 310). \<open>group_by_phone\<close> is the first loop, which
  creates the list of a phone that is not yet a key and appends the name; the
  comprehension collects the keys whose list is shorter than 2, and the fold deletes them.
\<close>

fun group_by_phone :: "string \<Rightarrow> row list \<Rightarrow> val list pydict \<Rightarrow> error + val list pydict" where
  "group_by_phone name_field [] phones_to_names = Inr phones_to_names"
| "group_by_phone name_field (row # rows) phones_to_names =
     (case getitem row NormalizedPhoneNumber of
        Inl e \<Rightarrow> Inl e
      | Inr phone \<Rightarrow>
          (case getitem row name_field of
             Inl e \<Rightarrow> Inl e
           | Inr name \<Rightarrow>
               group_by_phone name_field rows
                 (AList.map_entry phone (\<lambda>names. names @ [name])
                    (if phone \<notin> set (map fst phones_to_names)
                     then AList.update phone [] phones_to_names
                     else phones_to_names))))"

definition find_duplicates :: "row list \<Rightarrow> string \<Rightarrow> error + val list pydict" where
  "find_duplicates rows name_field =
     (case group_by_phone name_field rows [] of
        Inl e \<Rightarrow> Inl e
      | Inr phones_to_names \<Rightarrow>
          Inr (fold AList.delete
                 [phone. (phone, names) \<leftarrow> phones_to_names, length names < 2]
                 phones_to_names))"

text \<open>The names of the rows with a given phone, in row order.\<close>

definition names_of :: "string \<Rightarrow> val \<Rightarrow> row list \<Rightarrow> val list" where
  "names_of name_field phone rows =
     List.map_filter
       (\<lambda>row. if getitem row NormalizedPhoneNumber = Inr phone
              then (case getitem row name_field of Inl e \<Rightarrow> None | Inr name \<Rightarrow> Some name)
              else None)
       rows"


definition mkrow :: "nat \<Rightarrow> (string \<times> val) list \<Rightarrow> row" where
  "mkrow i cs = \<lparr>rid = i, cells = cs\<rparr>"

lemma names_of_Nil [simp]: "names_of nf p [] = []"
  by (simp add: names_of_def map_filter_simps)


lemma map_of_map_entry:
  "map_of (AList.map_entry k f d) p =
     (if p = k then map_option f (map_of d k) else map_of d p)"
  by (induction d) auto

lemma dom_map_entry: "fst ` set (AList.map_entry k f d) = fst ` set d"
  by (induction d) auto










text \<open>
  The scenario of the specification: phones \<open>[P1, P1, P2]\<close> with names
  \<open>[N1, N2, N3]\<close> give \<open>{P1: [N1, N2]}\<close>.
\<close>

lemma find_duplicates_scenario:
  assumes "P1 \<noteq> P2" and "name_field \<noteq> NormalizedPhoneNumber"
  shows "find_duplicates
           [mkrow i1 [(NormalizedPhoneNumber, P1), (name_field, N1)],
            mkrow i2 [(NormalizedPhoneNumber, P1), (name_field, N2)],
            mkrow i3 [(NormalizedPhoneNumber, P2), (name_field, N3)]]
           name_field
         = Inr [(P1, [N1, N2])]"
  using assms by (simp add: mkrow_def find_duplicates_def getitem_def)

section \<open>The remote tables\<close>

text \<open>
  The table service is a collaborator outside the repository (section 6 of the
  specification): it holds three tables of rows, answers a fetch with the rows that pass
  all the filters, and persists an updated row under its id, or refuses the update with
  an exception. The rows the service refuses are listed in \<open>rejected\<close>. The service
  calls, the engine queries and the printed exceptions are recorded in \<open>events\<close>.
\<close>

datatype table = Activists | Registrations | Recruitments

datatype event =
    Fetched table
  | Queried string string
  | Updated table nat
  | PrintedError error
  | CouldNotParse string

record world =
  activists :: "row list"
  registrations :: "row list"
  recruitments :: "row list"
  rejected :: "(table \<times> nat) list"
  events :: "event list"

definition stored_rows :: "table \<Rightarrow> world \<Rightarrow> row list" where
  "stored_rows t w =
     (case t of Activists \<Rightarrow> activists w
              | Registrations \<Rightarrow> registrations w
              | Recruitments \<Rightarrow> recruitments w)"

definition put_rows :: "table \<Rightarrow> row list \<Rightarrow> world \<Rightarrow> world" where
  "put_rows t rows w =
     (case t of Activists \<Rightarrow> w\<lparr>activists := rows\<rparr>
              | Registrations \<Rightarrow> w\<lparr>registrations := rows\<rparr>
              | Recruitments \<Rightarrow> w\<lparr>recruitments := rows\<rparr>)"

definition record_event :: "event \<Rightarrow> world \<Rightarrow> world" where
  "record_event e w = w\<lparr>events := events w @ [e]\<rparr>"

text \<open>
  The filters the code uses are \<open>Filter(field, '', 'empty')\<close> and
  \<open>Filter(field, '', 'not_empty')\<close>. A cell counts as empty when it is null, the empty
  text or the empty list, which are also the cells Python treats as false.
\<close>

datatype filter_op = IsEmpty | NotEmpty

type_synonym row_filter = "string \<times> filter_op"

definition cell :: "row \<Rightarrow> string \<Rightarrow> val" where
  "cell r k = (case map_of (cells r) k of None \<Rightarrow> VNone | Some v \<Rightarrow> v)"

definition passes :: "row_filter \<Rightarrow> row \<Rightarrow> bool" where
  "passes f r =
     (case snd f of IsEmpty \<Rightarrow> \<not> truthy (cell r (fst f))
                  | NotEmpty \<Rightarrow> truthy (cell r (fst f)))"

definition select_rows :: "row_filter list \<Rightarrow> row list \<Rightarrow> row list" where
  "select_rows filters rows = filter (\<lambda>r. list_all (\<lambda>f. passes f r) filters) rows"

definition get_rows :: "table \<Rightarrow> row_filter list \<Rightarrow> world \<Rightarrow> row list \<times> world" where
  "get_rows t filters w = (select_rows filters (stored_rows t w), record_event (Fetched t) w)"

definition store_row :: "row \<Rightarrow> row list \<Rightarrow> row list" where
  "store_row r rows = map (\<lambda>x. if rid x = rid r then r else x) rows"

text \<open>\<open>row.update()\<close>: the exception of a refused update, or the world with the row stored.\<close>

definition row_update :: "table \<Rightarrow> row \<Rightarrow> world \<Rightarrow> error + world" where
  "row_update t r w =
     (if (t, rid r) \<in> set (rejected w) then Inl UpdateError
      else Inr (record_event (Updated t (rid r)) (put_rows t (store_row r (stored_rows t w)) w)))"

text \<open>\<open>update_row_safe\<close> (lines 38 to 42): the exception is caught and printed.\<close>

definition update_row_safe :: "table \<Rightarrow> row \<Rightarrow> world \<Rightarrow> world" where
  "update_row_safe t r w =
     (case row_update t r w of
        Inl e \<Rightarrow> record_event (PrintedError e) w
      | Inr w' \<Rightarrow> w')"

text \<open>
  The column names of the source are Hebrew; only their identity matters, and they are
  written here by Latin stand-ins: \<open>ID\<close> for the ID-number column, \<open>RishumonName\<close> and
  \<open>ElectorName\<close> for the two name columns, \<open>FullName\<close> for the full-name column,
  \<open>Phone\<close> for the phone column of the recruitment table, \<open>TeamCandidate\<close> and
  \<open>FieldActivists\<close> for the two columns the linker writes, \<open>Yes\<close> and \<open>No\<close> for
  the two texts it writes.
\<close>

definition F_ID :: string where "F_ID = ''ID''"
definition F_RishumonName :: string where "F_RishumonName = ''RishumonName''"
definition F_ElectorName :: string where "F_ElectorName = ''ElectorName''"
definition F_FullName :: string where "F_FullName = ''FullName''"
definition F_Phone :: string where "F_Phone = ''Phone''"
definition F_TeamCandidate :: string where "F_TeamCandidate = ''TeamCandidate''"
definition F_FieldActivists :: string where "F_FieldActivists = ''FieldActivists''"
definition T_Yes :: string where "T_Yes = ''Yes''"
definition T_No :: string where "T_No = ''No''"

section \<open>Names by ID\<close>

text \<open>
  \<open>fill_name_by_id\<close> (lines 187 to 223). A query engine maps an ID to its records; a
  record maps field names to texts. \<open>name_text\<close> is the text the inner loop assigns: the
  marker when the query has no result, the two names of the first record otherwise, and
  \<open>KeyError\<close> when that record lacks one of the two fields.
\<close>

type_synonym engine = "string \<Rightarrow> (string \<times> string) list list"

definition name_text :: "engine \<Rightarrow> string \<Rightarrow> string \<Rightarrow> string \<Rightarrow> error + string" where
  "name_text query first_name_field last_name_field ID =
     (case query ID of
        [] \<Rightarrow> Inr ''NOT FOUND''
      | result # _ \<Rightarrow>
          (case map_of result first_name_field of
             None \<Rightarrow> Inl KeyError
           | Some first_name \<Rightarrow>
               (case map_of result last_name_field of
                  None \<Rightarrow> Inl KeyError
                | Some last_name \<Rightarrow> Inr (first_name @ '' '' @ last_name))))"

definition engine_step ::
  "engine option \<Rightarrow> string \<Rightarrow> string \<Rightarrow> string \<Rightarrow> string \<Rightarrow> row \<Rightarrow> world
     \<Rightarrow> (error + row) \<times> world" where
  "engine_step engine field_name first_name_field last_name_field ID row w =
     (case engine of
        None \<Rightarrow> (Inr row, w)
      | Some query \<Rightarrow>
          (case name_text query first_name_field last_name_field ID of
             Inl e \<Rightarrow> (Inl e, record_event (Queried field_name ID) w)
           | Inr text \<Rightarrow>
               (Inr (setitem field_name (VStr text) row),
                update_row_safe Activists (setitem field_name (VStr text) row)
                  (record_event (Queried field_name ID) w))))"

text \<open>
  The checksum of an ID cell: \<open>zfill\<close> is a method of \<open>str\<close>, so a cell that is not a text
  raises \<open>AttributeError\<close>.
\<close>

definition control_digit_of_cell :: "val \<Rightarrow> error + int" where
  "control_digit_of_cell v =
     (case v of VStr s \<Rightarrow> compute_id_control_digit s | _ \<Rightarrow> Inl AttributeError)"

definition id_text :: "val \<Rightarrow> string" where
  "id_text v = (case v of VStr s \<Rightarrow> s | _ \<Rightarrow> [])"

fun fill_name_rows ::
  "engine option \<Rightarrow> engine option \<Rightarrow> row list \<Rightarrow> world \<Rightarrow> error option \<times> world" where
  "fill_name_rows rishumon_query_engine elector_query_engine [] w = (None, w)"
| "fill_name_rows rishumon_query_engine elector_query_engine (row # rows) w =
     (case getitem row F_ID of
        Inl e \<Rightarrow> (Some e, w)
      | Inr ID \<Rightarrow>
          (case control_digit_of_cell ID of
             Inl e \<Rightarrow>
               if e = AssertionError
               then fill_name_rows rishumon_query_engine elector_query_engine rows w
               else (Some e, w)
           | Inr check_digit \<Rightarrow>
               if check_digit \<noteq> 0
               then fill_name_rows rishumon_query_engine elector_query_engine rows w
               else
                 (case engine_step rishumon_query_engine F_RishumonName ''Name'' ''Family''
                         (id_text ID) row w of
                    (Inl e, w1) \<Rightarrow> (Some e, w1)
                  | (Inr row1, w1) \<Rightarrow>
                      (case engine_step elector_query_engine F_ElectorName
                              ''first_name'' ''last_name'' (id_text ID) row1 w1 of
                         (Inl e, w2) \<Rightarrow> (Some e, w2)
                       | (Inr row2, w2) \<Rightarrow>
                           fill_name_rows rishumon_query_engine elector_query_engine
                             rows w2))))"

definition fill_name_by_id ::
  "engine option \<Rightarrow> engine option \<Rightarrow> world \<Rightarrow> error option \<times> world" where
  "fill_name_by_id rishumon_query_engine elector_query_engine w =
     (let has_id_filter = (F_ID, NotEmpty);
          non_empty_rishumon_name_filter = (F_RishumonName, IsEmpty);
          non_empty_elector_name_filter = (F_ElectorName, IsEmpty)
      in
      if rishumon_query_engine \<noteq> None \<and> elector_query_engine = None
      then (case get_rows Activists [has_id_filter, non_empty_rishumon_name_filter] w of
              (rows, w1) \<Rightarrow> fill_name_rows rishumon_query_engine elector_query_engine rows w1)
      else if rishumon_query_engine = None \<and> elector_query_engine \<noteq> None
      then (case get_rows Activists [has_id_filter, non_empty_elector_name_filter] w of
              (rows, w1) \<Rightarrow> fill_name_rows rishumon_query_engine elector_query_engine rows w1)
      else if rishumon_query_engine = None \<and> elector_query_engine = None
      then (None, w)
      else (case get_rows Activists [has_id_filter] w of
              (rows, w1) \<Rightarrow> fill_name_rows rishumon_query_engine elector_query_engine rows w1))"







lemma rid_setitem [simp]: "rid (setitem k v r) = rid r"
  by (simp add: setitem_def)

lemma stored_rows_record_event [simp]: "stored_rows t (record_event e w) = stored_rows t w"
  by (simp add: stored_rows_def record_event_def split: table.splits)

lemma activists_record_event [simp]: "activists (record_event e w) = activists w"
  by (simp add: record_event_def)

lemma registrations_record_event [simp]: "registrations (record_event e w) = registrations w"
  by (simp add: record_event_def)

lemma recruitments_record_event [simp]: "recruitments (record_event e w) = recruitments w"
  by (simp add: record_event_def)

lemma rejected_record_event [simp]: "rejected (record_event e w) = rejected w"
  by (simp add: record_event_def)


lemma others_update_row_safe [simp]:
  "registrations (update_row_safe Activists r w) = registrations w"
  "recruitments (update_row_safe Activists r w) = recruitments w"
  "rejected (update_row_safe Activists r w) = rejected w"
  by (simp_all add: update_row_safe_def row_update_def put_rows_def stored_rows_def)



lemma engine_step_None [simp]: "engine_step None f a b ID row w = (Inr row, w)"
  by (simp add: engine_step_def)






text \<open>
  C10. Called with neither engine, \<open>fill_name_by_id\<close> returns at once: no row is
  fetched, no engine is queried, no row is written, and the world, its record of events
  included, is as before.
\<close>

theorem fill_name_by_id_none_none:
  "fill_name_by_id None None w = (None, w)"
  by (simp add: fill_name_by_id_def)







section \<open>Linking activists and recruitments\<close>

text \<open>
  \<open>str.isspace\<close> below U+0100, and \<open>str.strip()\<close>, which removes the white space at
  both ends.
\<close>

definition isspace_chr :: "char \<Rightarrow> bool" where
  "isspace_chr c =
     ((9 \<le> (of_char c :: nat) \<and> (of_char c :: nat) \<le> 13)
      \<or> (28 \<le> (of_char c :: nat) \<and> (of_char c :: nat) \<le> 32)
      \<or> c = CHR 0x85 \<or> c = CHR 0xA0)"

definition strip :: "string \<Rightarrow> string" where
  "strip s = rev (dropWhile isspace_chr (rev (dropWhile isspace_chr s)))"

text \<open>
  \<open>link_activists_and_recruitments\<close> (lines 242 to 261). \<open>recruitment_phones_of\<close> is the
  dictionary comprehension over \<open>enumerate(recruitment_rows)\<close>: a later row with the same
  phone replaces the index. \<open>link_rows\<close> is the loop over the activists; it carries the
  fetched recruitment rows, which the loop body changes in place. The recruitment row is
  updated by \<open>recruitment_row.update()\<close>, outside \<open>update_row_safe\<close>.
\<close>

fun recruitment_phones_of ::
  "row list \<Rightarrow> nat \<Rightarrow> (string \<times> nat) list \<Rightarrow> error + (string \<times> nat) list" where
  "recruitment_phones_of [] i recruitment_phones = Inr recruitment_phones"
| "recruitment_phones_of (r # rest) i recruitment_phones =
     (case getitem r F_Phone of
        Inl e \<Rightarrow> Inl e
      | Inr v \<Rightarrow>
          (case v of
             VStr s \<Rightarrow>
               recruitment_phones_of rest (Suc i) (AList.update (strip s) i recruitment_phones)
           | _ \<Rightarrow> Inl AttributeError))"

definition phone_index :: "(string \<times> nat) list \<Rightarrow> val \<Rightarrow> nat option" where
  "phone_index recruitment_phones phone =
     (case phone of VStr s \<Rightarrow> map_of recruitment_phones s | _ \<Rightarrow> None)"

fun link_rows ::
  "(string \<times> nat) list \<Rightarrow> row list \<Rightarrow> row list \<Rightarrow> world \<Rightarrow> error option \<times> world" where
  "link_rows recruitment_phones [] recruitment_rows w = (None, w)"
| "link_rows recruitment_phones (r # rest) recruitment_rows w =
     (case getitem r NormalizedPhoneNumber of
        Inl e \<Rightarrow> (Some e, w)
      | Inr phone \<Rightarrow>
          (case phone_index recruitment_phones phone of
             Some i \<Rightarrow>
               (case row_update Recruitments
                       (setitem F_FieldActivists (VIds [rid r]) (recruitment_rows ! i)) w of
                  Inl e \<Rightarrow> (Some e, w)
                | Inr w1 \<Rightarrow>
                    link_rows recruitment_phones rest
                      (recruitment_rows
                         [i := setitem F_FieldActivists (VIds [rid r]) (recruitment_rows ! i)])
                      (update_row_safe Activists (setitem F_TeamCandidate (VStr T_Yes) r) w1))
           | None \<Rightarrow>
               link_rows recruitment_phones rest recruitment_rows
                 (update_row_safe Activists (setitem F_TeamCandidate (VStr T_No) r) w)))"

definition link_activists_and_recruitments :: "world \<Rightarrow> error option \<times> world" where
  "link_activists_and_recruitments w =
     (case get_rows Recruitments [] w of
        (recruitment_rows, w1) \<Rightarrow>
          (case recruitment_phones_of recruitment_rows 0 [] of
             Inl e \<Rightarrow> (Some e, w1)
           | Inr recruitment_phones \<Rightarrow>
               (case get_rows Activists [(NormalizedPhoneNumber, NotEmpty)] w1 of
                  (activists_rows, w2) \<Rightarrow>
                    link_rows recruitment_phones activists_rows recruitment_rows w2)))"

definition link_world :: "(table \<times> nat) list \<Rightarrow> world" where
  "link_world refused =
     \<lparr>activists =
        [mkrow 1 [(NormalizedPhoneNumber, VStr ''972501111111''), (F_TeamCandidate, VNone)],
         mkrow 2 [(NormalizedPhoneNumber, VStr ''972502222222''), (F_TeamCandidate, VNone)]],
      registrations = [],
      recruitments =
        [mkrow 7 [(F_Phone, VStr ''972501111111 ''), (F_FieldActivists, VIds [])]],
      rejected = refused, events = []\<rparr>"

text \<open>
  C3. A refused update of an activist row is caught by \<open>update_row_safe\<close> and the scan
  goes on: with the update of activist 1 refused, activist 2 is still marked. A refused
  update of the recruitment row is not caught: the exception leaves
  \<open>link_activists_and_recruitments\<close> at the first activist, whose own mark is not
  saved, and activist 2 is never reached.
\<close>

theorem link_recruitment_update_failure_aborts:
  "fst (link_activists_and_recruitments (link_world [(Activists, 1)])) = None
   \<and> map (\<lambda>r. cell r F_TeamCandidate)
         (activists (snd (link_activists_and_recruitments (link_world [(Activists, 1)]))))
       = [VNone, VStr T_No]
   \<and> fst (link_activists_and_recruitments (link_world [(Recruitments, 7)])) = Some UpdateError
   \<and> map (\<lambda>r. cell r F_TeamCandidate)
         (activists (snd (link_activists_and_recruitments (link_world [(Recruitments, 7)]))))
       = [VNone, VNone]
   \<and> events (snd (link_activists_and_recruitments (link_world [(Recruitments, 7)])))
       = [Fetched Recruitments, Fetched Activists]"
  by code_simp

section \<open>Filling a field by phone\<close>

text \<open>
  Python's \<open>sub in s\<close> on strings, \<open>s.split(sep)\<close> for a separator that is not empty, and
  \<open>sep.join(xs)\<close>.
\<close>

fun contains :: "string \<Rightarrow> string \<Rightarrow> bool" where
  "contains sub [] = (sub = [])"
| "contains sub (c # cs) = (take (length sub) (c # cs) = sub \<or> contains sub cs)"

fun split_from :: "string \<Rightarrow> string \<Rightarrow> string \<Rightarrow> string list" where
  "split_from sep cur [] = [rev cur]"
| "split_from sep cur (c # cs) =
     (if sep \<noteq> [] \<and> take (length sep) (c # cs) = sep
      then rev cur # split_from sep [] (drop (length sep) (c # cs))
      else split_from sep (c # cur) cs)"

definition split :: "string \<Rightarrow> string \<Rightarrow> string list" where
  "split sep s = split_from sep [] s"

fun join :: "string \<Rightarrow> string list \<Rightarrow> string" where
  "join sep [] = []"
| "join sep [x] = x"
| "join sep (x # y # ys) = x @ sep @ join sep (y # ys)"

text \<open>
  \<open>_build_phone_to_field_dict_from_table_rows\<close> (lines 77 to 105). \<open>row.fields\<close> are the
  column names of the row, and \<open>matching_fields\<close> is the comprehension of line 86. Both
  \<open>raise KeyError\<close> statements are branches of the loop.
\<close>

definition fields :: "row \<Rightarrow> string list" where
  "fields row = map fst (cells row)"

definition matching_fields :: "string \<Rightarrow> row \<Rightarrow> string list" where
  "matching_fields field_name row = filter (contains field_name) (fields row)"

fun build_rows :: "string \<Rightarrow> row list \<Rightarrow> val list pydict \<Rightarrow> error + val list pydict" where
  "build_rows field_name [] phone_to_field = Inr phone_to_field"
| "build_rows field_name (row # table_rows) phone_to_field =
     (case matching_fields field_name row of
        [] \<Rightarrow> Inl KeyError
      | field_full_name # others \<Rightarrow>
          if others \<noteq> [] then Inl KeyError
          else
            (case getitem row field_full_name of
               Inl e \<Rightarrow> Inl e
             | Inr field_content \<Rightarrow>
                 (case getitem row NormalizedPhoneNumber of
                    Inl e \<Rightarrow> Inl e
                  | Inr phone_num \<Rightarrow>
                      build_rows field_name table_rows
                        (if truthy field_content
                         then (if phone_num \<in> set (map fst phone_to_field)
                               then AList.map_entry phone_num (\<lambda>xs. xs @ [field_content])
                                      phone_to_field
                               else AList.update phone_num [field_content] phone_to_field)
                         else phone_to_field))))"

definition build_phone_to_field_dict_from_table_rows ::
  "string \<Rightarrow> row list \<Rightarrow> error + val list pydict" where
  "build_phone_to_field_dict_from_table_rows field_name table_rows =
     build_rows field_name table_rows []"

text \<open>
  \<open>_add_to_dict_if_not_empty\<close> (lines 107 to 116). The values are a list (or tuple), or
  one value that is made a list of one.
\<close>

datatype query_values = ValueList "val list" | OneValue val

definition add_to_dict_if_not_empty ::
  "val \<Rightarrow> query_values \<Rightarrow> val list pydict \<Rightarrow> val list pydict" where
  "add_to_dict_if_not_empty key vals dic =
     (let vs = (case vals of ValueList xs \<Rightarrow> xs | OneValue v \<Rightarrow> [v]) in
      if vs \<noteq> []
      then AList.map_entry key (\<lambda>xs. xs @ vs)
             (if key \<notin> set (map fst dic) then AList.update key [] dic else dic)
      else dic)"

text \<open>
  Line 160, \<open>list(set([url.strip() for url in ... if url]))\<close>. \<open>strip_truthy\<close> is the
  comprehension: the values that are false are left out, a text is stripped, and a
  value that is true and not a text has no \<open>strip\<close>. \<open>list(set(...))\<close> removes repeated
  entries and gives the rest in an order Python does not specify: the order is a
  parameter \<open>so\<close> of the model, and \<open>valid_order\<close> says all that is known of it.
\<close>

fun strip_truthy :: "val list \<Rightarrow> error + string list" where
  "strip_truthy [] = Inr []"
| "strip_truthy (url # urls) =
     (if truthy url
      then (case url of
              VStr s \<Rightarrow>
                (case strip_truthy urls of Inl e \<Rightarrow> Inl e | Inr ss \<Rightarrow> Inr (strip s # ss))
            | _ \<Rightarrow> Inl AttributeError)
      else strip_truthy urls)"

type_synonym set_order = "string list \<Rightarrow> string list"

definition valid_order :: "set_order \<Rightarrow> bool" where
  "valid_order so = (\<forall>xs. distinct (so xs) \<and> set (so xs) = set xs)"

text \<open>
  The body of the loop of \<open>_fill_field_from_registration_to_activists\<close> (lines 147 to
  167) for one activist row, and the loop. The log line of line 164 reads the full-name
  column of the row.
\<close>

definition fill_row ::
  "set_order \<Rightarrow> string \<Rightarrow> (val \<Rightarrow> query_values) option \<Rightarrow> row \<Rightarrow> val list pydict \<Rightarrow> world
     \<Rightarrow> (error + val list pydict) \<times> world" where
  "fill_row so activists_field additional_query_function row phone_to_field_dict w =
     (case getitem row NormalizedPhoneNumber of
        Inl e \<Rightarrow> (Inl e, w)
      | Inr phone \<Rightarrow>
          (case getitem row activists_field of
             Inl e \<Rightarrow> (Inl e, w)
           | Inr current \<Rightarrow>
               (case (if truthy current
                      then (case current of
                              VStr s \<Rightarrow>
                                Inr (add_to_dict_if_not_empty phone
                                       (ValueList (map VStr (split '' , '' s)))
                                       (case additional_query_function of
                                          None \<Rightarrow> phone_to_field_dict
                                        | Some f \<Rightarrow>
                                            add_to_dict_if_not_empty phone (f phone)
                                              phone_to_field_dict))
                            | _ \<Rightarrow> Inl AttributeError)
                      else Inr (case additional_query_function of
                                  None \<Rightarrow> phone_to_field_dict
                                | Some f \<Rightarrow>
                                    add_to_dict_if_not_empty phone (f phone)
                                      phone_to_field_dict)) of
                  Inl e \<Rightarrow> (Inl e, w)
                | Inr d2 \<Rightarrow>
                    (case (case map_of d2 phone of
                             None \<Rightarrow> Inr d2
                           | Some urls \<Rightarrow>
                               (case strip_truthy urls of
                                  Inl e \<Rightarrow> Inl e
                                | Inr ss \<Rightarrow> Inr (AList.update phone (map VStr (so ss)) d2))) of
                       Inl e \<Rightarrow> (Inl e, w)
                     | Inr d3 \<Rightarrow>
                         (case map_of d3 phone of
                            None \<Rightarrow> (Inr d3, w)
                          | Some merged \<Rightarrow>
                              if merged = [] then (Inr d3, w)
                              else
                                (case getitem row F_FullName of
                                   Inl e \<Rightarrow> (Inl e, w)
                                 | Inr full_name \<Rightarrow>
                                     (Inr d3,
                                      update_row_safe Activists
                                        (setitem activists_field
                                           (VStr (join '' , '' (map text_of merged))) row)
                                        w)))))))"

fun fill_rows ::
  "set_order \<Rightarrow> string \<Rightarrow> (val \<Rightarrow> query_values) option \<Rightarrow> row list \<Rightarrow> val list pydict \<Rightarrow> world
     \<Rightarrow> error option \<times> world" where
  "fill_rows so activists_field additional_query_function [] phone_to_field_dict w = (None, w)"
| "fill_rows so activists_field additional_query_function (row # activists_rows)
     phone_to_field_dict w =
     (case fill_row so activists_field additional_query_function row phone_to_field_dict w of
        (Inl e, w1) \<Rightarrow> (Some e, w1)
      | (Inr d, w1) \<Rightarrow>
          fill_rows so activists_field additional_query_function activists_rows d w1)"

definition fill_field_from_registration_to_activists ::
  "set_order \<Rightarrow> string \<Rightarrow> string \<Rightarrow> bool \<Rightarrow> (val \<Rightarrow> query_values) option \<Rightarrow> world
     \<Rightarrow> error option \<times> world" where
  "fill_field_from_registration_to_activists so registration_field activists_field full_run
     additional_query_function w =
     (case get_rows Registrations [] w of
        (registration_rows, w1) \<Rightarrow>
          (case build_phone_to_field_dict_from_table_rows registration_field
                  registration_rows of
             Inl e \<Rightarrow> (Some e, w1)
           | Inr phone_to_field_dict \<Rightarrow>
               (case get_rows Activists
                       (if full_run then [(NormalizedPhoneNumber, NotEmpty)]
                        else [(NormalizedPhoneNumber, NotEmpty), (activists_field, IsEmpty)])
                       w1 of
                  (activists_rows, w2) \<Rightarrow>
                    fill_rows so activists_field additional_query_function activists_rows
                      phone_to_field_dict w2)))"

definition fill_world :: "string \<Rightarrow> world" where
  "fill_world email =
     \<lparr>activists =
        [mkrow 1 [(NormalizedPhoneNumber, VStr ''972501111111''), (F_FullName, VStr ''Dana''),
                  (''email'', VNone)]],
      registrations =
        [mkrow 5 [(NormalizedPhoneNumber, VStr ''972501111111''), (''Email address'', VStr email)]],
      recruitments = [], rejected = [], events = []\<rparr>"

lemma getitem_error: "getitem r k = Inl e \<Longrightarrow> e = KeyError"
  by (auto simp: getitem_def split: option.splits)

lemma build_rows_schema_mismatch:
  assumes "\<exists>row\<in>set table_rows. length (matching_fields field_name row) \<noteq> 1"
  shows "build_rows field_name table_rows phone_to_field = Inl KeyError"
  using assms
proof (induction table_rows arbitrary: phone_to_field)
  case Nil
  then show ?case by simp
next
  case (Cons row table_rows)
  show ?case
  proof (cases "matching_fields field_name row")
    case Nil
    then show ?thesis by simp
  next
    case (Cons k others)
    note match = this
    show ?thesis
    proof (cases "others = []")
      case False
      then show ?thesis using match by simp
    next
      case True
      then have "\<exists>row\<in>set table_rows.
                   length (matching_fields field_name row) \<noteq> 1"
        using Cons.prems match by simp
      then have rest: "build_rows field_name table_rows d = Inl KeyError" for d
        by (rule Cons.IH)
      show ?thesis
        using match True rest
        by (auto simp: dest: getitem_error split: sum.splits)
    qed
  qed
qed

text \<open>
  C7. If the lookup of the column whose name contains \<open>registration_field\<close> matches no
  column or more than one column in some registration row, the fill ends with
  \<open>KeyError\<close>: nothing in it catches the exception, the activists are not even fetched,
  and no row is written. The world is as before but for the recorded fetch of the
  registrations.
\<close>

theorem fill_schema_mismatch_aborts:
  assumes "\<exists>row\<in>set (registrations w).
             length (matching_fields registration_field row) \<noteq> 1"
  shows "fill_field_from_registration_to_activists so registration_field activists_field
           full_run additional_query_function w
         = (Some KeyError, record_event (Fetched Registrations) w)"
  using build_rows_schema_mismatch [OF assms, of "[]"]
  by (simp add: fill_field_from_registration_to_activists_def get_rows_def select_rows_def
        stored_rows_def build_phone_to_field_dict_from_table_rows_def)

theorem fill_schema_mismatch_aborts_witness:
  "list_ex (\<lambda>row. length (matching_fields ''Emil'' row) \<noteq> 1)
     (registrations (fill_world ''a@b.c''))
   \<and> fill_field_from_registration_to_activists remdups ''Emil'' ''email'' False None
       (fill_world ''a@b.c'')
     = (Some KeyError, record_event (Fetched Registrations) (fill_world ''a@b.c''))
   \<and> activists (record_event (Fetched Registrations) (fill_world ''a@b.c''))
     = activists (fill_world ''a@b.c'')"
proof -
  have h: "\<exists>row\<in>set (registrations (fill_world ''a@b.c'')).
             length (matching_fields ''Emil'' row) \<noteq> 1"
    by (simp add: fill_world_def mkrow_def matching_fields_def fields_def
          NormalizedPhoneNumber_def)
  show ?thesis
    using fill_schema_mismatch_aborts [OF h, of remdups "''email''" False None] h
    by (simp add: list_ex_iff)
qed

lemma valid_order_singleton:
  assumes "valid_order so"
  shows "so [x] = [x]"
proof -
  have d: "distinct (so [x])" and s: "set (so [x]) = {x}"
    using assms by (simp_all add: valid_order_def)
  show ?thesis
  proof (cases "so [x]")
    case Nil
    then show ?thesis using s by simp
  next
    case (Cons y ys)
    then have "y = x" and "set ys \<subseteq> {x}" and "y \<notin> set ys"
      using d s by auto
    then have "ys = []"
      by (cases ys) auto
    then show ?thesis using Cons \<open>y = x\<close> by simp
  qed
qed

lemma valid_order_remdups: "valid_order remdups"
  by (simp add: valid_order_def)

lemma merged_distinct:
  "valid_order so \<Longrightarrow> distinct (map VStr (so ss))"
  by (simp add: valid_order_def distinct_map inj_on_def)

text \<open>
  C6. The merged list has no repeated entries (\<open>merged_distinct\<close>) and a row is written
  only when the list is not empty (the last branch of \<open>fill_row\<close>). But line 160 drops
  the empty values before it strips the rest: a registration value of one space passes
  the test \<open>if url\<close> and is stripped to the empty string. The merged list is then
  \<open>['''']\<close>, it counts as not empty, and the empty string is written to the row.
\<close>

theorem fill_writes_empty_string:
  assumes "valid_order so"
  shows "strip_truthy [VStr '' ''] = Inr ['''']
         \<and> fst (fill_field_from_registration_to_activists so ''Email'' ''email'' False None
                  (fill_world '' '')) = None
         \<and> activists (snd (fill_field_from_registration_to_activists so ''Email'' ''email''
                              False None (fill_world '' '')))
             = [mkrow 1 [(NormalizedPhoneNumber, VStr ''972501111111''),
                         (F_FullName, VStr ''Dana''), (''email'', VStr '''')]]
         \<and> events (snd (fill_field_from_registration_to_activists so ''Email'' ''email''
                           False None (fill_world '' '')))
             = [Fetched Registrations, Fetched Activists, Updated Activists 1]"
proof -
  have s: "strip_truthy [VStr '' ''] = Inr ['''']"
    by (simp add: truthy_def strip_def isspace_chr_def)
  have b: "build_phone_to_field_dict_from_table_rows ''Email'' (registrations (fill_world '' ''))
             = Inr [(VStr ''972501111111'', [VStr '' ''])]"
    by (simp add: build_phone_to_field_dict_from_table_rows_def fill_world_def mkrow_def
          matching_fields_def fields_def getitem_def truthy_def NormalizedPhoneNumber_def)
  have r: "fill_row so ''email'' None
             (mkrow 1 [(NormalizedPhoneNumber, VStr ''972501111111''),
                       (F_FullName, VStr ''Dana''), (''email'', VNone)])
             [(VStr ''972501111111'', [VStr '' ''])] w
           = (Inr [(VStr ''972501111111'', [VStr ''''])],
              update_row_safe Activists
                (mkrow 1 [(NormalizedPhoneNumber, VStr ''972501111111''),
                          (F_FullName, VStr ''Dana''), (''email'', VStr '''')]) w)" for w
    using s valid_order_singleton [OF assms, of "''''"]
    by (simp add: fill_row_def mkrow_def getitem_def setitem_def truthy_def text_of_def
          NormalizedPhoneNumber_def F_FullName_def)
  show ?thesis
    using s b r
    by (simp add: fill_field_from_registration_to_activists_def get_rows_def select_rows_def
          stored_rows_def passes_def cell_def truthy_def fill_world_def record_event_def
          update_row_safe_def row_update_def put_rows_def store_row_def mkrow_def
          NormalizedPhoneNumber_def F_FullName_def)
qed

theorem fill_writes_empty_string_witness:
  "valid_order remdups
   \<and> cell (activists (snd (fill_field_from_registration_to_activists remdups ''Email''
                             ''email'' False None (fill_world '' ''))) ! 0) ''email''
       = VStr ''''"
  using fill_writes_empty_string [OF valid_order_remdups] valid_order_remdups
  by (simp add: cell_def mkrow_def NormalizedPhoneNumber_def F_FullName_def)

section \<open>Running the fill twice\<close>

text \<open>
  The loop of the fill reads the dictionary only through the list of a phone, with a
  phone that is no key counting as the empty list. \<open>plan_row\<close> is the loop body on this
  view, for a row whose target cell is empty (the rows a run with \<open>full_run=False\<close>
  fetches): the new view, and the row the body hands to \<open>update_row_safe\<close>, if any.
  \<open>plan_rows\<close> runs over a whole table and skips the rows the filters reject.
\<close>

definition lst :: "val list pydict \<Rightarrow> val \<Rightarrow> val list" where
  "lst d k = (case map_of d k of None \<Rightarrow> [] | Some xs \<Rightarrow> xs)"

definition vals_list :: "query_values \<Rightarrow> val list" where
  "vals_list vals = (case vals of ValueList xs \<Rightarrow> xs | OneValue v \<Rightarrow> [v])"

definition qvals :: "(val \<Rightarrow> query_values) option \<Rightarrow> val \<Rightarrow> val list" where
  "qvals additional_query_function phone =
     (case additional_query_function of None \<Rightarrow> [] | Some f \<Rightarrow> vals_list (f phone))"

definition plan_row ::
  "set_order \<Rightarrow> string \<Rightarrow> (val \<Rightarrow> query_values) option \<Rightarrow> row \<Rightarrow> (val \<Rightarrow> val list)
     \<Rightarrow> error + (val \<Rightarrow> val list) \<times> row option" where
  "plan_row so activists_field aqf row A =
     (case getitem row NormalizedPhoneNumber of
        Inl e \<Rightarrow> Inl e
      | Inr phone \<Rightarrow>
          (case getitem row activists_field of
             Inl e \<Rightarrow> Inl e
           | Inr current \<Rightarrow>
               (case strip_truthy (A phone @ qvals aqf phone) of
                  Inl e \<Rightarrow> Inl e
                | Inr ss \<Rightarrow>
                    if so ss = [] then Inr (A(phone := []), None)
                    else
                      (case getitem row F_FullName of
                         Inl e \<Rightarrow> Inl e
                       | Inr full_name \<Rightarrow>
                           Inr (A(phone := map VStr (so ss)),
                                Some (setitem activists_field
                                        (VStr (join '' , '' (so ss))) row))))))"

definition selected :: "string \<Rightarrow> row \<Rightarrow> bool" where
  "selected activists_field r =
     (truthy (cell r NormalizedPhoneNumber) \<and> \<not> truthy (cell r activists_field))"

fun plan_rows ::
  "set_order \<Rightarrow> string \<Rightarrow> (val \<Rightarrow> query_values) option \<Rightarrow> row list \<Rightarrow> (val \<Rightarrow> val list)
     \<Rightarrow> error + row option list" where
  "plan_rows so af aqf [] A = Inr []"
| "plan_rows so af aqf (r # rows) A =
     (if selected af r
      then (case plan_row so af aqf r A of
              Inl e \<Rightarrow> Inl e
            | Inr (A', out) \<Rightarrow>
                (case plan_rows so af aqf rows A' of
                   Inl e \<Rightarrow> Inl e
                 | Inr outs \<Rightarrow> Inr (out # outs)))
      else (case plan_rows so af aqf rows A of
              Inl e \<Rightarrow> Inl e
            | Inr outs \<Rightarrow> Inr (None # outs)))"

lemma lst_update: "lst (AList.update k v d) q = (if q = k then v else lst d q)"
  by (simp add: lst_def update_conv')

lemma lst_map_entry:
  "lst (AList.map_entry k f d) q =
     (if q = k \<and> map_of d k \<noteq> None then f (lst d k) else lst d q)"
  by (auto simp: lst_def map_of_map_entry split: option.splits)

lemma lst_None: "map_of d k = None \<Longrightarrow> lst d k = []"
  by (simp add: lst_def)

lemma lst_Some: "map_of d k = Some xs \<Longrightarrow> lst d k = xs"
  by (simp add: lst_def)

lemma lst_add_to_dict:
  "lst (add_to_dict_if_not_empty k vals d) q =
     (if q = k then lst d k @ vals_list vals else lst d q)"
proof (cases "vals_list vals = []")
  case True
  then show ?thesis
    by (simp add: add_to_dict_if_not_empty_def vals_list_def Let_def)
next
  case False
  let ?d0 = "if k \<notin> set (map fst d) then AList.update k [] d else d"
  have unfold: "add_to_dict_if_not_empty k vals d
                  = AList.map_entry k (\<lambda>xs. xs @ vals_list vals) ?d0"
    using False by (simp add: add_to_dict_if_not_empty_def vals_list_def Let_def)
  have key: "map_of ?d0 k \<noteq> None"
  proof (cases "k \<in> set (map fst d)")
    case True
    then show ?thesis by (simp add: map_of_eq_None_iff)
  next
    case False
    then show ?thesis by (simp add: update_conv')
  qed
  have same: "lst ?d0 q' = lst d q'" for q'
  proof (cases "k \<in> set (map fst d)")
    case True
    then show ?thesis by simp
  next
    case False
    then have "map_of d k = None"
      by (simp add: map_of_eq_None_iff)
    then have "lst d k = []"
      by (rule lst_None)
    then show ?thesis
      using False by (simp add: lst_update)
  qed
  show ?thesis
    unfolding unfold lst_map_entry using key same by simp
qed

lemma lst_queried:
  "lst (case aqf of None \<Rightarrow> d | Some f \<Rightarrow> add_to_dict_if_not_empty p (f p) d) q =
     (if q = p then lst d p @ qvals aqf p else lst d q)"
  by (cases aqf) (simp_all add: qvals_def lst_add_to_dict)

lemma valid_order_Nil:
  assumes "valid_order so"
  shows "so [] = []"
proof -
  have "set (so []) = set ([] :: string list)"
    using assms by (simp add: valid_order_def)
  then show ?thesis by simp
qed

lemma valid_order_Nil_iff: "valid_order so \<Longrightarrow> so ss = [] \<longleftrightarrow> ss = []"
  by (metis valid_order_def set_empty)

lemma text_of_VStr [simp]: "map text_of (map VStr ss) = ss"
  by (induction ss) (simp_all add: text_of_def)

lemma text_of_VStr_comp [simp]: "map (text_of \<circ> VStr) ss = ss"
  by (induction ss) (simp_all add: text_of_def)

lemma getitem_cell_eq: "getitem r k = Inr v \<Longrightarrow> cell r k = v"
  by (auto simp: getitem_def cell_def split: option.splits)

text \<open>The loop body follows its plan.\<close>

lemma fill_row_plan:
  assumes vo: "valid_order so" and empty: "\<not> truthy (cell r af)"
  shows "case plan_row so af aqf r (lst d) of
           Inl e \<Rightarrow> fill_row so af aqf r d w = (Inl e, w)
         | Inr (A', out) \<Rightarrow>
             (\<exists>d'. fill_row so af aqf r d w =
                     (Inr d', (case out of None \<Rightarrow> w
                                         | Some r' \<Rightarrow> update_row_safe Activists r' w))
                  \<and> lst d' = A')"
proof (cases "getitem r NormalizedPhoneNumber")
  case (Inl e)
  then show ?thesis by (simp add: plan_row_def fill_row_def)
next
  case phone: (Inr p)
  show ?thesis
  proof (cases "getitem r af")
    case (Inl e)
    then show ?thesis using phone by (simp add: plan_row_def fill_row_def)
  next
    case cur: (Inr current)
    have falsy: "\<not> truthy current"
      using empty getitem_cell_eq [OF cur] by simp
    let ?d2 = "case aqf of None \<Rightarrow> d | Some f \<Rightarrow> add_to_dict_if_not_empty p (f p) d"
    have l2: "lst ?d2 q = (if q = p then lst d p @ qvals aqf p else lst d q)" for q
      by (rule lst_queried)
    show ?thesis
    proof (cases "map_of ?d2 p")
      case None
      have "lst d p @ qvals aqf p = []"
        using lst_None [OF None] l2 [of p] by simp
      moreover have "lst ?d2 = (lst d)(p := [])"
        using l2 calculation by (auto simp: fun_eq_iff)
      ultimately show ?thesis
        using phone cur falsy None vo
        by (simp add: plan_row_def fill_row_def valid_order_Nil)
    next
      case (Some urls)
      have urls: "urls = lst d p @ qvals aqf p"
        using lst_Some [OF Some] l2 [of p] by simp
      show ?thesis
      proof (cases "strip_truthy urls")
        case (Inl e)
        then show ?thesis
          using phone cur falsy Some urls by (simp add: plan_row_def fill_row_def)
      next
        case (Inr ss)
        let ?d3 = "AList.update p (map VStr (so ss)) ?d2"
        have l3: "lst ?d3 = (lst d)(p := map VStr (so ss))"
          using l2 by (auto simp: fun_eq_iff lst_update)
        have m3: "map_of ?d3 p = Some (map VStr (so ss))"
          by (simp add: update_conv')
        show ?thesis
        proof (cases "so ss = []")
          case True
          then show ?thesis
            using phone cur falsy Some urls Inr l3 m3
            by (simp add: plan_row_def fill_row_def)
        next
          case False
          then show ?thesis
            using phone cur falsy Some urls Inr l3 m3
            by (cases "getitem r F_FullName") (simp_all add: plan_row_def fill_row_def)
        qed
      qed
    qed
  qed
qed

text \<open>
  \<open>kept_row\<close> is the row the store holds after the body ran on a row: the row handed to
  \<open>update_row_safe\<close> unless there was none or the service refused it. \<open>apply_outs\<close>
  applies the updates of a run to the activists table one after the other.
\<close>

definition kept_row :: "(nat \<Rightarrow> bool) \<Rightarrow> row \<Rightarrow> row option \<Rightarrow> row" where
  "kept_row rj r out = (case out of None \<Rightarrow> r | Some r' \<Rightarrow> if rj (rid r') then r else r')"

definition apply_out :: "(nat \<Rightarrow> bool) \<Rightarrow> row list \<Rightarrow> row option \<Rightarrow> row list" where
  "apply_out rj cur out =
     (case out of None \<Rightarrow> cur | Some r' \<Rightarrow> if rj (rid r') then cur else store_row r' cur)"

definition refused :: "world \<Rightarrow> nat \<Rightarrow> bool" where
  "refused w i = ((Activists, i) \<in> set (rejected w))"

lemma select_rows_selected:
  "select_rows [(NormalizedPhoneNumber, NotEmpty), (af, IsEmpty)] rows
     = filter (selected af) rows"
  unfolding select_rows_def
  by (rule filter_cong) (simp_all add: selected_def passes_def)

lemma selected_empty: "selected af r \<Longrightarrow> \<not> truthy (cell r af)"
  by (simp add: selected_def)

lemma update_row_safe_activists:
  "activists (update_row_safe Activists r w) = apply_out (refused w) (activists w) (Some r)"
  by (simp add: update_row_safe_def row_update_def put_rows_def stored_rows_def
        apply_out_def refused_def)

lemma update_row_safe_refused [simp]:
  "refused (update_row_safe Activists r w) = refused w"
  by (simp add: refused_def fun_eq_iff)

lemma fill_rows_plan:
  assumes vo: "valid_order so"
  shows "case plan_rows so af aqf acts (lst d) of
           Inl e \<Rightarrow> fst (fill_rows so af aqf (filter (selected af) acts) d w) = Some e
         | Inr outs \<Rightarrow>
             fst (fill_rows so af aqf (filter (selected af) acts) d w) = None
             \<and> activists (snd (fill_rows so af aqf (filter (selected af) acts) d w))
                 = foldl (apply_out (refused w)) (activists w) outs
             \<and> rejected (snd (fill_rows so af aqf (filter (selected af) acts) d w))
                 = rejected w
             \<and> registrations (snd (fill_rows so af aqf (filter (selected af) acts) d w))
                 = registrations w"
proof (induction acts arbitrary: d w)
  case Nil
  show ?case by simp
next
  case (Cons r acts)
  show ?case
  proof (cases "selected af r")
    case False
    then show ?thesis
      using Cons.IH [of d w] by (auto simp: apply_out_def split: sum.splits)
  next
    case True
    note step = fill_row_plan [OF vo selected_empty [OF True], of aqf d w]
    show ?thesis
    proof (cases "plan_row so af aqf r (lst d)")
      case (Inl e)
      then show ?thesis using step True by simp
    next
      case (Inr pair)
      obtain A' out where pair: "pair = (A', out)"
        by (cases pair)
      let ?w1 = "case out of None \<Rightarrow> w | Some r' \<Rightarrow> update_row_safe Activists r' w"
      from step Inr pair obtain d' where
        run: "fill_row so af aqf r d w = (Inr d', ?w1)" and view: "lst d' = A'"
        by auto
      have act1: "activists ?w1 = apply_out (refused w) (activists w) out"
        by (cases out) (simp_all add: update_row_safe_activists apply_out_def)
      have ref1: "refused ?w1 = refused w"
        by (cases out) simp_all
      have rej1: "rejected ?w1 = rejected w" and reg1: "registrations ?w1 = registrations w"
        by (cases out; simp)+
      show ?thesis
        using Cons.IH [of d' ?w1] True Inr pair run view act1 ref1 rej1 reg1
        by (auto split: sum.splits)
    qed
  qed
qed

lemma plan_row_rid:
  "plan_row so af aqf r A = Inr (A', Some r') \<Longrightarrow> rid r' = rid r"
  by (auto simp: plan_row_def split: sum.splits if_splits)

definition aligned :: "row \<Rightarrow> row option \<Rightarrow> bool" where
  "aligned a out = (case out of None \<Rightarrow> True | Some r' \<Rightarrow> rid r' = rid a)"

lemma plan_rows_Cons:
  assumes "plan_rows so af aqf (r # acts) A = Inr outs"
  shows "\<exists>out outs' A'. outs = out # outs' \<and> plan_rows so af aqf acts A' = Inr outs'
           \<and> (if selected af r then plan_row so af aqf r A = Inr (A', out)
                else A' = A \<and> out = None)"
proof (cases "selected af r")
  case False
  then show ?thesis
    using assms by (cases "plan_rows so af aqf acts A") auto
next
  case True
  show ?thesis
  proof (cases "plan_row so af aqf r A")
    case (Inl e)
    then show ?thesis using assms True by simp
  next
    case (Inr pair)
    obtain A' out where pair: "pair = (A', out)"
      by (cases pair)
    show ?thesis
      using assms True Inr pair by (cases "plan_rows so af aqf acts A'") auto
  qed
qed

lemma plan_rows_aligned:
  "plan_rows so af aqf acts A = Inr outs \<Longrightarrow>
   list_all2 aligned acts outs"
proof (induction acts arbitrary: A outs)
  case Nil
  then show ?case by simp
next
  case (Cons r acts)
  from plan_rows_Cons [OF Cons.prems] obtain out outs' A' where
    outs: "outs = out # outs'" and rest: "plan_rows so af aqf acts A' = Inr outs'"
    and head: "if selected af r then plan_row so af aqf r A = Inr (A', out)
               else A' = A \<and> out = None"
    by blast
  have "aligned r out"
  proof (cases out)
    case None
    then show ?thesis by (simp add: aligned_def)
  next
    case (Some r')
    then have "plan_row so af aqf r A = Inr (A', Some r')"
      using head by (cases "selected af r") auto
    then show ?thesis
      using Some plan_row_rid by (simp add: aligned_def)
  qed
  then show ?case
    using Cons.IH [OF rest] outs by simp
qed

lemma store_row_other:
  "rid r' \<notin> rid ` set rows \<Longrightarrow> store_row r' rows = rows"
  by (induction rows) (auto simp: store_row_def)

lemma store_row_append: "store_row r' (xs @ ys) = store_row r' xs @ store_row r' ys"
  by (simp add: store_row_def)

text \<open>
  With distinct row ids, the updates of a run change each row of the table in its place.
\<close>

lemma rid_kept_row: "aligned a out \<Longrightarrow> rid (kept_row rj a out) = rid a"
  by (cases out) (simp_all add: aligned_def kept_row_def)

lemma apply_out_in_place:
  assumes al: "aligned a out"
    and pre: "rid a \<notin> rid ` set pre" and post: "rid a \<notin> rid ` set acts"
  shows "apply_out rj (pre @ a # acts) out = pre @ kept_row rj a out # acts"
proof (cases out)
  case None
  then show ?thesis by (simp add: apply_out_def kept_row_def)
next
  case (Some r')
  have id: "rid r' = rid a"
    using al Some by (simp add: aligned_def)
  have p: "store_row r' pre = pre"
    by (rule store_row_other) (simp add: id pre)
  have q: "store_row r' acts = acts"
    by (rule store_row_other) (simp add: id post)
  have m: "store_row r' [a] = [r']"
    by (simp add: store_row_def id)
  have "store_row r' (pre @ [a] @ acts) = pre @ [r'] @ acts"
    unfolding store_row_append p q m ..
  then show ?thesis
    using Some by (simp add: apply_out_def kept_row_def)
qed

lemma apply_outs_in_place:
  assumes "distinct (map rid (pre @ acts))" and "list_all2 aligned acts outs"
  shows "foldl (apply_out rj) (pre @ acts) outs
           = pre @ map (\<lambda>(a, out). kept_row rj a out) (zip acts outs)"
  using assms
proof (induction acts arbitrary: pre outs)
  case Nil
  then show ?case by simp
next
  case (Cons a acts)
  from Cons.prems(2) obtain out outs' where
    outs: "outs = out # outs'" and al: "aligned a out" and rest: "list_all2 aligned acts outs'"
    by (cases outs) auto
  have nin: "rid a \<notin> rid ` set pre" "rid a \<notin> rid ` set acts"
    using Cons.prems(1) by auto
  have first: "apply_out rj (pre @ a # acts) out = (pre @ [kept_row rj a out]) @ acts"
    using apply_out_in_place [OF al nin] by simp
  have dist: "distinct (map rid ((pre @ [kept_row rj a out]) @ acts))"
    using Cons.prems(1) rid_kept_row [OF al, of rj] by simp
  have "foldl (apply_out rj) (pre @ a # acts) outs
          = foldl (apply_out rj) ((pre @ [kept_row rj a out]) @ acts) outs'"
    unfolding outs using first by simp
  also have "\<dots> = (pre @ [kept_row rj a out])
                     @ map (\<lambda>(a, out). kept_row rj a out) (zip acts outs')"
    by (rule Cons.IH [OF dist rest])
  finally show ?case
    unfolding outs by simp
qed

text \<open>
  Texts and stripping. A text is blank when all its characters are white space; these
  are the texts \<open>strip\<close> empties. \<open>has_text\<close> holds of a list with a text that is not
  blank, and \<open>clean\<close> of a list whose true values are all texts, the lists line 160
  accepts.
\<close>

definition nonblank :: "string \<Rightarrow> bool" where
  "nonblank s = (\<exists>c\<in>set s. \<not> isspace_chr c)"

definition has_text :: "val list \<Rightarrow> bool" where
  "has_text L = (\<exists>s. VStr s \<in> set L \<and> nonblank s)"

definition clean :: "val list \<Rightarrow> bool" where
  "clean L = (\<forall>v\<in>set L. truthy v \<longrightarrow> is_text v)"

lemma dropWhile_Nil_hd:
  "dropWhile P xs \<noteq> [] \<Longrightarrow> \<exists>x\<in>set (dropWhile P xs). \<not> P x"
  using hd_dropWhile [of P xs] hd_in_set [of "dropWhile P xs"] by blast

lemma strip_Nil_iff: "strip s = [] \<longleftrightarrow> \<not> nonblank s"
proof -
  let ?u = "dropWhile isspace_chr s"
  have "strip s = [] \<longleftrightarrow> dropWhile isspace_chr (rev ?u) = []"
    by (simp add: strip_def)
  also have "\<dots> \<longleftrightarrow> (\<forall>c\<in>set ?u. isspace_chr c)"
    by (simp add: dropWhile_eq_Nil_conv)
  also have "\<dots> \<longleftrightarrow> ?u = []"
    using dropWhile_Nil_hd [of isspace_chr s] by (auto dest: set_dropWhileD)
  also have "\<dots> \<longleftrightarrow> (\<forall>c\<in>set s. isspace_chr c)"
    by (simp add: dropWhile_eq_Nil_conv)
  finally show ?thesis
    by (simp add: nonblank_def)
qed

lemma set_strip: "set (strip s) \<subseteq> set s"
proof -
  have "set (strip s) = set (dropWhile isspace_chr (rev (dropWhile isspace_chr s)))"
    by (simp add: strip_def)
  also have "\<dots> \<subseteq> set (rev (dropWhile isspace_chr s))"
    by (auto dest: set_dropWhileD)
  also have "\<dots> \<subseteq> set s"
    by (auto dest: set_dropWhileD)
  finally show ?thesis .
qed

lemma nonblank_strip: "nonblank (strip s) \<longleftrightarrow> nonblank s"
proof
  assume "nonblank (strip s)"
  then show "nonblank s"
    using set_strip [of s] by (auto simp: nonblank_def)
next
  assume "nonblank s"
  then have "strip s \<noteq> []"
    by (simp add: strip_Nil_iff)
  then have "dropWhile isspace_chr (rev (dropWhile isspace_chr s)) \<noteq> []"
    by (simp add: strip_def)
  from dropWhile_Nil_hd [OF this] show "nonblank (strip s)"
    by (auto simp: nonblank_def strip_def)
qed

lemma nonblank_not_Nil: "nonblank s \<Longrightarrow> s \<noteq> []"
  by (auto simp: nonblank_def)

lemma has_text_append [simp]: "has_text (xs @ ys) \<longleftrightarrow> has_text xs \<or> has_text ys"
  by (auto simp: has_text_def)

lemma clean_append [simp]: "clean (xs @ ys) \<longleftrightarrow> clean xs \<and> clean ys"
  by (auto simp: clean_def)

lemma clean_VStr [simp]: "clean (map VStr ss)"
  by (auto simp: clean_def is_text_def)

lemma clean_Nil [simp]: "clean []"
  by (simp add: clean_def)

lemma has_text_VStr: "has_text (map VStr ss) \<longleftrightarrow> (\<exists>t\<in>set ss. nonblank t)"
  by (auto simp: has_text_def)

lemma strip_truthy_clean: "(\<exists>ss. strip_truthy L = Inr ss) \<longleftrightarrow> clean L"
proof (induction L)
  case Nil
  show ?case by simp
next
  case (Cons v L)
  show ?case
  proof (cases "truthy v")
    case False
    then show ?thesis using Cons by (simp add: clean_def)
  next
    case True
    show ?thesis
    proof (cases v)
      case (VStr s)
      then show ?thesis
        using True Cons by (auto simp: clean_def is_text_def split: sum.splits)
    next
      case VNone
      then show ?thesis using True by (simp add: clean_def is_text_def)
    next
      case (VIds ids)
      then show ?thesis using True by (simp add: clean_def is_text_def)
    qed
  qed
qed

lemma strip_truthy_set:
  "strip_truthy L = Inr ss \<Longrightarrow> set ss = {strip s |s. VStr s \<in> set L \<and> s \<noteq> []}"
proof (induction L arbitrary: ss)
  case Nil
  then show ?case by simp
next
  case (Cons v L)
  show ?case
  proof (cases "truthy v")
    case False
    then have "strip_truthy L = Inr ss"
      using Cons.prems by simp
    from Cons.IH [OF this] show ?thesis
      using False by (auto simp: truthy_def)
  next
    case True
    then obtain s ss' where v: "v = VStr s" and s: "s \<noteq> []"
      and tail: "strip_truthy L = Inr ss'" and ss: "ss = strip s # ss'"
      using Cons.prems by (cases v) (auto simp: truthy_def split: sum.splits)
    from Cons.IH [OF tail] show ?thesis
      using v s ss by auto
  qed
qed

lemma strip_truthy_nonempty:
  assumes "strip_truthy L = Inr ss"
  shows "(\<exists>t\<in>set ss. t \<noteq> []) \<longleftrightarrow> has_text L"
proof
  assume "\<exists>t\<in>set ss. t \<noteq> []"
  then obtain s where "VStr s \<in> set L" and "strip s \<noteq> []"
    unfolding strip_truthy_set [OF assms] by blast
  then show "has_text L"
    by (auto simp: has_text_def strip_Nil_iff)
next
  assume "has_text L"
  then obtain s where s: "VStr s \<in> set L" and nb: "nonblank s"
    by (auto simp: has_text_def)
  have "strip s \<in> set ss"
    unfolding strip_truthy_set [OF assms] using s nonblank_not_Nil [OF nb] by blast
  moreover have "strip s \<noteq> []"
    using nb by (simp add: strip_Nil_iff)
  ultimately show "\<exists>t\<in>set ss. t \<noteq> []"
    by blast
qed

lemma strip_truthy_has_text:
  assumes "strip_truthy L = Inr ss"
  shows "has_text (map VStr ss) \<longleftrightarrow> has_text L"
proof -
  have "(\<exists>t\<in>set ss. nonblank t) \<longleftrightarrow> (\<exists>t\<in>set ss. t \<noteq> [])"
  proof
    assume "\<exists>t\<in>set ss. nonblank t"
    then show "\<exists>t\<in>set ss. t \<noteq> []"
      using nonblank_not_Nil by blast
  next
    assume "\<exists>t\<in>set ss. t \<noteq> []"
    then obtain s where "strip s \<in> set ss" and "strip s \<noteq> []"
      unfolding strip_truthy_set [OF assms] by blast
    then show "\<exists>t\<in>set ss. nonblank t"
      using nonblank_strip [of s] strip_Nil_iff [of s] by blast
  qed
  then show ?thesis
    using strip_truthy_nonempty [OF assms] by (simp add: has_text_VStr)
qed

lemma join_Nil_iff:
  assumes "sep \<noteq> []" and "distinct xs"
  shows "join sep xs = [] \<longleftrightarrow> (\<forall>t\<in>set xs. t = [])"
proof (cases xs)
  case Nil
  then show ?thesis by simp
next
  case (Cons x ys)
  note xs = this
  show ?thesis
  proof (cases ys)
    case Nil
    then show ?thesis using xs by simp
  next
    case (Cons y zs)
    have "x \<noteq> y"
      using assms(2) xs Cons by simp
    then show ?thesis
      using assms(1) xs Cons by auto
  qed
qed

text \<open>The value the body writes is empty exactly when the list has no text.\<close>

lemma written_empty_iff:
  assumes vo: "valid_order so" and st: "strip_truthy L = Inr ss"
  shows "join '' , '' (so ss) = [] \<longleftrightarrow> \<not> has_text L"
proof -
  have "distinct (so ss)" and "set (so ss) = set ss"
    using vo by (simp_all add: valid_order_def)
  then show ?thesis
    using join_Nil_iff [of "'' , ''" "so ss"] strip_truthy_nonempty [OF st] by auto
qed

lemma has_text_so_nonempty:
  assumes vo: "valid_order so" and st: "strip_truthy L = Inr ss" and "has_text L"
  shows "so ss \<noteq> []"
proof -
  have "set (so ss) = set ss"
    using vo by (simp add: valid_order_def)
  then show ?thesis
    using strip_truthy_nonempty [OF st] assms(3) by auto
qed

lemma has_text_so:
  assumes vo: "valid_order so" and st: "strip_truthy L = Inr ss"
  shows "has_text (map VStr (so ss)) \<longleftrightarrow> has_text L"
proof -
  have "set (so ss) = set ss"
    using vo by (simp add: valid_order_def)
  then have "has_text (map VStr (so ss)) \<longleftrightarrow> has_text (map VStr ss)"
    by (simp add: has_text_VStr)
  then show ?thesis
    using strip_truthy_has_text [OF st] by simp
qed

lemma getitem_setitem:
  "getitem (setitem k v r) k' = (if k' = k then Inr v else getitem r k')"
  by (simp add: getitem_def setitem_def update_conv')

lemma cell_setitem: "cell (setitem k v r) k' = (if k' = k then v else cell r k')"
  by (simp add: cell_def setitem_def update_conv')

lemma getitem_setitem_Inr:
  "getitem r k' = Inr x \<Longrightarrow> \<exists>y. getitem (setitem k v r) k' = Inr y"
  by (simp add: getitem_setitem)

lemma update_twice: "AList.update k v (AList.update k v al) = AList.update k v al"
  by (induction al) auto

lemma setitem_twice: "setitem k v (setitem k v r) = setitem k v r"
  by (simp add: setitem_def update_twice)

lemma plan_row_Inr:
  assumes "plan_row so af aqf r A = Inr (A', out)"
  shows "\<exists>p cur ss. getitem r NormalizedPhoneNumber = Inr p \<and> getitem r af = Inr cur
           \<and> strip_truthy (A p @ qvals aqf p) = Inr ss
           \<and> A' = A(p := map VStr (so ss))
           \<and> out = (if so ss = [] then None
                    else Some (setitem af (VStr (join '' , '' (so ss))) r))
           \<and> (so ss = [] \<or> (\<exists>full_name. getitem r F_FullName = Inr full_name))"
proof (cases "getitem r NormalizedPhoneNumber")
  case (Inl e)
  then show ?thesis using assms by (simp add: plan_row_def)
next
  case phone: (Inr p)
  show ?thesis
  proof (cases "getitem r af")
    case (Inl e)
    then show ?thesis using assms phone by (simp add: plan_row_def)
  next
    case cur: (Inr current)
    show ?thesis
    proof (cases "strip_truthy (A p @ qvals aqf p)")
      case (Inl e)
      then show ?thesis using assms phone cur by (simp add: plan_row_def)
    next
      case (Inr ss)
      show ?thesis
      proof (cases "so ss = []")
        case True
        then show ?thesis
          using assms phone cur Inr by (simp add: plan_row_def)
      next
        case False
        then show ?thesis
          using assms phone cur Inr
          by (cases "getitem r F_FullName") (auto simp: plan_row_def)
      qed
    qed
  qed
qed

lemma plan_row_intro:
  assumes "getitem r NormalizedPhoneNumber = Inr p" and "getitem r af = Inr cur"
    and "strip_truthy (A p @ qvals aqf p) = Inr ss"
    and "so ss = [] \<or> getitem r F_FullName = Inr full_name"
  shows "plan_row so af aqf r A =
           Inr (A(p := map VStr (so ss)),
                if so ss = [] then None
                else Some (setitem af (VStr (join '' , '' (so ss))) r))"
  using assms by (auto simp: plan_row_def)

lemma plan_rows_step:
  assumes "if selected af r then plan_row so af aqf r A = Inr (A', out)
           else A' = A \<and> out = None"
    and "plan_rows so af aqf acts A' = Inr outs"
  shows "plan_rows so af aqf (r # acts) A = Inr (out # outs)"
  using assms by (cases "selected af r") simp_all

text \<open>
  Two runs side by side. \<open>T\<close> marks the phones whose list, with the queried values, has
  a text; this does not change while a run goes on (\<open>texty\<close>). The rows of such a phone
  are written with a value that is not empty, so the second run meets them only where
  the write was refused. For the other phones both runs meet the same rows in the same
  order and hold the same list (\<open>lock_rel\<close>).
\<close>

definition texty :: "(val \<Rightarrow> query_values) option \<Rightarrow> (val \<Rightarrow> bool) \<Rightarrow> (val \<Rightarrow> val list) \<Rightarrow> bool" where
  "texty aqf T A = (\<forall>p. has_text (A p @ qvals aqf p) = T p)"

definition lock_rel :: "(val \<Rightarrow> bool) \<Rightarrow> (val \<Rightarrow> val list) \<Rightarrow> (val \<Rightarrow> val list) \<Rightarrow> bool" where
  "lock_rel T A1 A2 = (\<forall>p. (T p \<or> A1 p = A2 p) \<and> (clean (A2 p) \<or> \<not> clean (A1 p)))"

lemma texty_step:
  assumes vo: "valid_order so" and inv: "texty aqf T A"
    and st: "strip_truthy (A p @ qvals aqf p) = Inr ss"
  shows "texty aqf T (A(p := map VStr (so ss)))"
proof -
  have "has_text (map VStr (so ss) @ qvals aqf p) = T p"
    using has_text_so [OF vo st] inv by (auto simp: texty_def)
  then show ?thesis
    using inv by (simp add: texty_def)
qed

lemma lock_step:
  assumes vo: "valid_order so"
    and inv1: "texty aqf T A1" and inv2: "texty aqf T A2" and rel: "lock_rel T A1 A2"
    and head: "if selected af a then plan_row so af aqf a A1 = Inr (A1', o1)
               else A1' = A1 \<and> o1 = None"
  shows "\<exists>A2' o2.
           (if selected af (kept_row rj a o1)
            then plan_row so af aqf (kept_row rj a o1) A2 = Inr (A2', o2)
            else A2' = A2 \<and> o2 = None)
           \<and> kept_row rj (kept_row rj a o1) o2 = kept_row rj a o1
           \<and> texty aqf T A1' \<and> texty aqf T A2' \<and> lock_rel T A1' A2'"
proof (cases "selected af a")
  case False
  then have "A1' = A1" and "o1 = None"
    using head by simp_all
  then show ?thesis
    using False inv1 inv2 rel by (simp add: kept_row_def)
next
  case True
  then have plan1: "plan_row so af aqf a A1 = Inr (A1', o1)"
    using head by simp
  from plan_row_Inr [OF plan1] obtain p cur ss where
    ph: "getitem a NormalizedPhoneNumber = Inr p" and cu: "getitem a af = Inr cur"
    and st1: "strip_truthy (A1 p @ qvals aqf p) = Inr ss"
    and A1': "A1' = A1(p := map VStr (so ss))"
    and o1: "o1 = (if so ss = [] then None
                   else Some (setitem af (VStr (join '' , '' (so ss))) a))"
    and fn: "so ss = [] \<or> (\<exists>full_name. getitem a F_FullName = Inr full_name)"
    by blast
  have inv1': "texty aqf T A1'"
    unfolding A1' using vo inv1 st1 by (rule texty_step)
  have cl1: "clean (A1 p)" and clq: "clean (qvals aqf p)"
    using strip_truthy_clean [of "A1 p @ qvals aqf p"] st1 by auto
  have cl2: "clean (A2 p)"
    using rel cl1 by (auto simp: lock_rel_def)
  have af_neq: "af \<noteq> NormalizedPhoneNumber"
    using True by (auto simp: selected_def)
  have T1: "has_text (A1 p @ qvals aqf p) = T p"
    using inv1 by (simp add: texty_def)
  show ?thesis
  proof (cases "T p")
    case texts: True
    have ne: "so ss \<noteq> []"
      using has_text_so_nonempty [OF vo st1] T1 texts by simp
    have val: "join '' , '' (so ss) \<noteq> []"
      using written_empty_iff [OF vo st1] T1 texts by simp
    let ?r' = "setitem af (VStr (join '' , '' (so ss))) a"
    have o1': "o1 = Some ?r'"
      using o1 ne by simp
    show ?thesis
    proof (cases "rj (rid a)")
      case False
      have kept: "kept_row rj a o1 = ?r'"
        using o1' False by (simp add: kept_row_def)
      have "\<not> selected af ?r'"
        using val by (simp add: selected_def cell_setitem truthy_def)
      moreover have "lock_rel T A1' A2"
        using rel cl2 texts by (auto simp: lock_rel_def A1')
      ultimately show ?thesis
        using kept inv1' inv2 by (auto simp: kept_row_def)
    next
      case refused: True
      have kept: "kept_row rj a o1 = a"
        using o1' refused by (simp add: kept_row_def)
      obtain ss2 where st2: "strip_truthy (A2 p @ qvals aqf p) = Inr ss2"
        using strip_truthy_clean [of "A2 p @ qvals aqf p"] cl2 clq by auto
      have "has_text (A2 p @ qvals aqf p)"
        using inv2 texts by (simp add: texty_def)
      then have ne2: "so ss2 \<noteq> []"
        using has_text_so_nonempty [OF vo st2] by simp
      obtain full_name where full: "getitem a F_FullName = Inr full_name"
        using fn ne by auto
      let ?A2' = "A2(p := map VStr (so ss2))"
      let ?o2 = "Some (setitem af (VStr (join '' , '' (so ss2))) a)"
      have plan2: "plan_row so af aqf a A2 = Inr (?A2', ?o2)"
        using plan_row_intro [where r = a and A = A2 and so = so, OF ph cu st2] ne2 full
        by simp
      have "kept_row rj a ?o2 = a"
        using refused by (simp add: kept_row_def)
      moreover have "texty aqf T ?A2'"
        using vo inv2 st2 by (rule texty_step)
      moreover have "lock_rel T A1' ?A2'"
        using rel texts by (auto simp: lock_rel_def A1')
      ultimately show ?thesis
        using kept True plan2 inv1' by auto
    qed
  next
    case no_texts: False
    have same: "A1 p = A2 p"
      using rel no_texts by (auto simp: lock_rel_def)
    have st2: "strip_truthy (A2 p @ qvals aqf p) = Inr ss"
      using st1 same by simp
    have val: "join '' , '' (so ss) = []"
      using written_empty_iff [OF vo st1] T1 no_texts by simp
    let ?r' = "setitem af (VStr []) a"
    have o1': "o1 = (if so ss = [] then None else Some ?r')"
      using o1 val by simp
    let ?a2 = "kept_row rj a o1"
    have a2: "?a2 = a \<or> (?a2 = ?r' \<and> so ss \<noteq> [] \<and> \<not> rj (rid a))"
      using o1' by (auto simp: kept_row_def)
    have falsy: "\<not> truthy (cell a af)"
      using True by (simp add: selected_def)
    have sel2: "selected af ?a2"
      using a2 True af_neq by (auto simp: selected_def cell_setitem truthy_def)
    have ph2: "getitem ?a2 NormalizedPhoneNumber = Inr p"
      using a2 ph af_neq by (auto simp: getitem_setitem)
    obtain cur2 where cu2: "getitem ?a2 af = Inr cur2"
      using a2 cu by (auto simp: getitem_setitem)
    have fn2: "so ss = [] \<or> (\<exists>full_name. getitem ?a2 F_FullName = Inr full_name)"
    proof (cases "so ss = []")
      case True
      then show ?thesis by simp
    next
      case False
      then obtain x where x: "getitem a F_FullName = Inr x"
        using fn by auto
      show ?thesis
        using a2 x getitem_setitem_Inr [OF x, of af "VStr []"] by auto
    qed
    then obtain full_name where
      full2: "so ss = [] \<or> getitem ?a2 F_FullName = Inr full_name"
      by auto
    let ?A2' = "A2(p := map VStr (so ss))"
    let ?o2 = "if so ss = [] then None else Some (setitem af (VStr []) ?a2)"
    have plan2: "plan_row so af aqf ?a2 A2 = Inr (?A2', ?o2)"
      using plan_row_intro [where A = A2 and so = so, OF ph2 cu2 st2 full2] val by simp
    have again: "kept_row rj ?a2 ?o2 = ?a2"
    proof (cases "so ss = []")
      case True
      then show ?thesis by (simp add: kept_row_def)
    next
      case False
      show ?thesis
      proof (cases "rj (rid a)")
        case True
        then show ?thesis
          using False o1' by (simp add: kept_row_def)
      next
        case nr: False
        then have "?a2 = ?r'"
          using False o1' by (simp add: kept_row_def)
        then show ?thesis
          using False nr by (simp add: kept_row_def setitem_twice)
      qed
    qed
    have "texty aqf T ?A2'"
      using vo inv2 st2 by (rule texty_step)
    moreover have "lock_rel T A1' ?A2'"
      using rel same by (auto simp: lock_rel_def A1')
    ultimately show ?thesis
      using sel2 plan2 again inv1' by auto
  qed
qed

lemma lock_rows:
  assumes vo: "valid_order so"
  shows "texty aqf T A1 \<Longrightarrow> texty aqf T A2 \<Longrightarrow> lock_rel T A1 A2 \<Longrightarrow>
         plan_rows so af aqf acts A1 = Inr outs1 \<Longrightarrow>
         \<exists>outs2.
           plan_rows so af aqf (map (\<lambda>(a, out). kept_row rj a out) (zip acts outs1)) A2
             = Inr outs2
           \<and> list_all2 (\<lambda>r2 out2. kept_row rj r2 out2 = r2)
               (map (\<lambda>(a, out). kept_row rj a out) (zip acts outs1)) outs2"
proof (induction acts arbitrary: A1 A2 outs1)
  case Nil
  then show ?case by simp
next
  case (Cons a acts)
  from plan_rows_Cons [OF Cons.prems(4)] obtain o1 outs1' A1' where
    outs1: "outs1 = o1 # outs1'" and rest: "plan_rows so af aqf acts A1' = Inr outs1'"
    and head: "if selected af a then plan_row so af aqf a A1 = Inr (A1', o1)
               else A1' = A1 \<and> o1 = None"
    by blast
  from lock_step [OF vo Cons.prems(1) Cons.prems(2) Cons.prems(3) head, of rj]
  obtain A2' o2 where
    head2: "if selected af (kept_row rj a o1)
            then plan_row so af aqf (kept_row rj a o1) A2 = Inr (A2', o2)
            else A2' = A2 \<and> o2 = None"
    and again: "kept_row rj (kept_row rj a o1) o2 = kept_row rj a o1"
    and inv1': "texty aqf T A1'" and inv2': "texty aqf T A2'" and rel': "lock_rel T A1' A2'"
    by blast
  from Cons.IH [OF inv1' inv2' rel' rest] obtain outs2' where
    run2: "plan_rows so af aqf (map (\<lambda>(a, out). kept_row rj a out) (zip acts outs1')) A2'
             = Inr outs2'"
    and harmless: "list_all2 (\<lambda>r2 out2. kept_row rj r2 out2 = r2)
                     (map (\<lambda>(a, out). kept_row rj a out) (zip acts outs1')) outs2'"
    by blast
  have "plan_rows so af aqf
          (kept_row rj a o1 # map (\<lambda>(a, out). kept_row rj a out) (zip acts outs1')) A2
        = Inr (o2 # outs2')"
    using head2 run2 by (rule plan_rows_step)
  then show ?case
    using outs1 again harmless by auto
qed

lemma select_rows_all [simp]: "select_rows [] rows = rows"
  by (simp add: select_rows_def)

lemma fill_unfold:
  "fill_field_from_registration_to_activists so rf af False aqf w =
     (case build_phone_to_field_dict_from_table_rows rf (registrations w) of
        Inl e \<Rightarrow> (Some e, record_event (Fetched Registrations) w)
      | Inr d \<Rightarrow>
          fill_rows so af aqf (filter (selected af) (activists w)) d
            (record_event (Fetched Activists) (record_event (Fetched Registrations) w)))"
  by (simp add: fill_field_from_registration_to_activists_def get_rows_def stored_rows_def
        select_rows_selected split: sum.splits)

lemma refused_record_event [simp]: "refused (record_event e w) = refused w"
  by (simp add: refused_def fun_eq_iff)

lemma refused_cong: "rejected w' = rejected w \<Longrightarrow> refused w' = refused w"
  by (simp add: refused_def fun_eq_iff)

lemma rid_kept_rows:
  "list_all2 aligned acts outs \<Longrightarrow>
   map rid (map (\<lambda>(a, out). kept_row rj a out) (zip acts outs)) = map rid acts"
  by (induction acts outs rule: list_all2_induct) (simp_all add: rid_kept_row)

lemma kept_rows_same:
  "list_all2 (\<lambda>r out. kept_row rj r out = r) rows outs \<Longrightarrow>
   map (\<lambda>(a, out). kept_row rj a out) (zip rows outs) = rows"
  by (induction rows outs rule: list_all2_induct) simp_all

text \<open>
  The effect of one run on the activists table, from its plan: each row is replaced in
  its place by the row the store keeps.
\<close>

lemma fill_rows_effect:
  assumes vo: "valid_order so" and dist: "distinct (map rid (activists w))"
    and plan: "plan_rows so af aqf (activists w) (lst d) = Inr outs"
  shows "fst (fill_rows so af aqf (filter (selected af) (activists w)) d w) = None
         \<and> activists (snd (fill_rows so af aqf (filter (selected af) (activists w)) d w))
             = map (\<lambda>(a, out). kept_row (refused w) a out) (zip (activists w) outs)
         \<and> rejected (snd (fill_rows so af aqf (filter (selected af) (activists w)) d w))
             = rejected w
         \<and> registrations (snd (fill_rows so af aqf (filter (selected af) (activists w)) d w))
             = registrations w"
proof -
  have al: "list_all2 aligned (activists w) outs"
    using plan by (rule plan_rows_aligned)
  have "foldl (apply_out (refused w)) ([] @ activists w) outs
          = [] @ map (\<lambda>(a, out). kept_row (refused w) a out) (zip (activists w) outs)"
    by (rule apply_outs_in_place) (simp_all add: dist al)
  then show ?thesis
    using fill_rows_plan [OF vo, of af aqf "activists w" d w] plan by simp
qed

lemma fill_rows_error:
  assumes vo: "valid_order so"
    and "fst (fill_rows so af aqf (filter (selected af) acts) d w) = None"
  shows "\<exists>outs. plan_rows so af aqf acts (lst d) = Inr outs"
  using fill_rows_plan [OF vo, of af aqf acts d w] assms(2)
  by (cases "plan_rows so af aqf acts (lst d)") auto

text \<open>
  C5. When a run of the phone-join fill with \<open>full_run=False\<close> has returned, a second
  run on the tables it left, with the same registrations, the same query function and
  the same refusals of the table service, returns as well and leaves every activist row
  as the first run left it. The row ids of the activists table are distinct.
\<close>

theorem fill_twice:
  assumes vo: "valid_order so" and dist: "distinct (map rid (activists w))"
    and run1: "fill_field_from_registration_to_activists so registration_field
                 activists_field False additional_query_function w = (None, w1)"
  shows "fst (fill_field_from_registration_to_activists so registration_field
                activists_field False additional_query_function w1) = None
         \<and> activists (snd (fill_field_from_registration_to_activists so registration_field
                              activists_field False additional_query_function w1))
             = activists w1"
proof -
  let ?af = activists_field and ?aqf = additional_query_function
  let ?wb = "record_event (Fetched Activists) (record_event (Fetched Registrations) w)"
  obtain d where build: "build_phone_to_field_dict_from_table_rows registration_field
                           (registrations w) = Inr d"
    using run1 unfolding fill_unfold
    by (cases "build_phone_to_field_dict_from_table_rows registration_field (registrations w)")
       auto
  have loop1: "fill_rows so ?af ?aqf (filter (selected ?af) (activists ?wb)) d ?wb = (None, w1)"
    using run1 build unfolding fill_unfold by simp
  then obtain outs1 where plan1: "plan_rows so ?af ?aqf (activists ?wb) (lst d) = Inr outs1"
    using fill_rows_error [OF vo, of ?af ?aqf "activists ?wb" d ?wb] by auto
  have dist_b: "distinct (map rid (activists ?wb))"
    using dist by simp
  let ?rj = "refused w"
  let ?acts2 = "map (\<lambda>(a, out). kept_row ?rj a out) (zip (activists w) outs1)"
  from fill_rows_effect [OF vo dist_b plan1] loop1
  have acts1: "activists w1 = ?acts2"
    and rej1: "rejected w1 = rejected w" and reg1: "registrations w1 = registrations w"
    by simp_all
  define T where "T = (\<lambda>p. has_text (lst d p @ qvals ?aqf p))"
  have inv: "texty ?aqf T (lst d)"
    by (simp add: texty_def T_def)
  have rel: "lock_rel T (lst d) (lst d)"
    by (simp add: lock_rel_def)
  have plan1': "plan_rows so ?af ?aqf (activists w) (lst d) = Inr outs1"
    using plan1 by simp
  from lock_rows [OF vo inv inv rel plan1', of ?rj] obtain outs2 where
    plan2: "plan_rows so ?af ?aqf ?acts2 (lst d) = Inr outs2"
    and harmless: "list_all2 (\<lambda>r2 out2. kept_row ?rj r2 out2 = r2) ?acts2 outs2"
    by blast
  let ?wb1 = "record_event (Fetched Activists) (record_event (Fetched Registrations) w1)"
  have al1: "list_all2 aligned (activists w) outs1"
    using plan1' by (rule plan_rows_aligned)
  have dist2: "distinct (map rid (activists ?wb1))"
    using dist rid_kept_rows [OF al1, of ?rj] acts1 by simp
  have plan2': "plan_rows so ?af ?aqf (activists ?wb1) (lst d) = Inr outs2"
    using plan2 acts1 by simp
  have rj1: "refused ?wb1 = ?rj"
    using refused_cong [OF rej1] by simp
  have run2: "fill_field_from_registration_to_activists so registration_field ?af False ?aqf w1
                = fill_rows so ?af ?aqf (filter (selected ?af) (activists ?wb1)) d ?wb1"
    unfolding fill_unfold using build reg1 by simp
  from fill_rows_effect [OF vo dist2 plan2']
  have "fst (fill_rows so ?af ?aqf (filter (selected ?af) (activists ?wb1)) d ?wb1) = None"
    and "activists (snd (fill_rows so ?af ?aqf (filter (selected ?af) (activists ?wb1)) d ?wb1))
           = map (\<lambda>(a, out). kept_row ?rj a out) (zip ?acts2 outs2)"
    using rj1 acts1 by simp_all
  then show ?thesis
    unfolding run2 using kept_rows_same [OF harmless] acts1 by simp
qed

definition twice_world :: world where
  "twice_world =
     \<lparr>activists =
        [mkrow 1 [(NormalizedPhoneNumber, VStr ''972501111111''), (F_FullName, VStr ''Dana''),
                  (''email'', VNone)],
         mkrow 2 [(NormalizedPhoneNumber, VStr ''972501111111''), (F_FullName, VStr ''Dan''),
                  (''email'', VNone)],
         mkrow 3 [(NormalizedPhoneNumber, VStr ''972502222222''), (F_FullName, VStr ''Noa''),
                  (''email'', VStr ''noa@example.org'')],
         mkrow 4 [(NormalizedPhoneNumber, VStr ''972503333333''), (F_FullName, VStr ''Gil''),
                  (''email'', VNone)]],
      registrations =
        [mkrow 5 [(NormalizedPhoneNumber, VStr ''972501111111''),
                  (''Email address'', VStr ''dana@example.org '')],
         mkrow 6 [(NormalizedPhoneNumber, VStr ''972501111111''),
                  (''Email address'', VStr ''dana@example.org'')],
         mkrow 7 [(NormalizedPhoneNumber, VStr ''972503333333''),
                  (''Email address'', VStr '' '')]],
      recruitments = [], rejected = [(Activists, 2)], events = []\<rparr>"

theorem fill_twice_witness:
  "valid_order remdups
   \<and> distinct (map rid (activists twice_world))
   \<and> fst (fill_field_from_registration_to_activists remdups ''Email'' ''email'' False None
            twice_world) = None
   \<and> map (\<lambda>r. cell r ''email'')
         (activists (snd (fill_field_from_registration_to_activists remdups ''Email'' ''email''
                            False None twice_world)))
       = [VStr ''dana@example.org'', VNone, VStr ''noa@example.org'', VStr '''']
   \<and> fst (fill_field_from_registration_to_activists remdups ''Email'' ''email'' False None
            (snd (fill_field_from_registration_to_activists remdups ''Email'' ''email''
                    False None twice_world))) = None
   \<and> activists
         (snd (fill_field_from_registration_to_activists remdups ''Email'' ''email'' False None
                 (snd (fill_field_from_registration_to_activists remdups ''Email'' ''email''
                         False None twice_world))))
       = activists (snd (fill_field_from_registration_to_activists remdups ''Email'' ''email''
                           False None twice_world))"
proof -
  let ?run = "fill_field_from_registration_to_activists remdups ''Email'' ''email'' False None
                twice_world"
  have d: "distinct (map rid (activists twice_world))"
    by code_simp
  have r: "fst ?run = None"
    by code_simp
  have c: "map (\<lambda>r. cell r ''email'') (activists (snd ?run))
             = [VStr ''dana@example.org'', VNone, VStr ''noa@example.org'', VStr '''']"
    by code_simp
  have e: "?run = (None, snd ?run)"
    using r by (simp add: prod_eq_iff)
  show ?thesis
    using fill_twice [OF valid_order_remdups d e] valid_order_remdups d r c by simp
qed

section \<open>The training participation report\<close>

text \<open>
  \<open>app.py\<close>. A \<open>datetime\<close> is its seven fields, a \<open>date\<close> is year, month and day, and
  dates are compared field by field. \<open>datetime.strptime\<close> is the library's parser and a
  parameter of the model: \<open>strptime s fmt\<close> is \<open>None\<close> where the library raises
  \<open>ValueError\<close>. \<open>date.today()\<close> is the parameter \<open>today\<close>.
\<close>

record datetime =
  dt_year :: int
  dt_month :: int
  dt_day :: int
  dt_hour :: int
  dt_minute :: int
  dt_second :: int
  dt_microsecond :: int

type_synonym date = "int \<times> int \<times> int"

type_synonym strptime = "string \<Rightarrow> string \<Rightarrow> datetime option"

definition date_of :: "datetime \<Rightarrow> date" where
  "date_of d = (dt_year d, dt_month d, dt_day d)"

definition date_less :: "date \<Rightarrow> date \<Rightarrow> bool" where
  "date_less a b =
     (case a of (y1, m1, d1) \<Rightarrow>
        (case b of (y2, m2, d2) \<Rightarrow>
           y1 < y2 \<or> (y1 = y2 \<and> (m1 < m2 \<or> (m1 = m2 \<and> d1 < d2)))))"

text \<open>
  \<open>dt - relativedelta(months=k)\<close> for \<open>k\<close> from 1 to 12, as \<open>dateutil\<close> computes it: the
  month goes back by \<open>k\<close>, into the year before when it passes January, and the day is
  cut to the length of the month reached.
\<close>

definition isleap :: "int \<Rightarrow> bool" where
  "isleap y = (y mod 4 = 0 \<and> (y mod 100 \<noteq> 0 \<or> y mod 400 = 0))"

definition monthrange :: "int \<Rightarrow> int \<Rightarrow> int" where
  "monthrange y m =
     (if m = 2 then (if isleap y then 29 else 28)
      else if m = 4 \<or> m = 6 \<or> m = 9 \<or> m = 11 then 30
      else 31)"

definition minus_months :: "date \<Rightarrow> int \<Rightarrow> date" where
  "minus_months d k =
     (case d of (y, m, day) \<Rightarrow>
        if m - k < 1
        then (y - 1, m - k + 12, min (monthrange (y - 1) (m - k + 12)) day)
        else (y, m - k, min (monthrange y (m - k)) day))"

text \<open>
  \<open>parse_date\<close> (lines 60 to 77): the formats are tried in order and the first that
  parses wins; when none does, the message is printed and the result is \<open>None\<close>.
  \<open>strptime\<close> raises \<open>TypeError\<close>, which is not caught, for a value that is not a text.
\<close>

definition date_formats :: "string list" where
  "date_formats = [''%m/%d/%Y %I:%M%p'', ''%Y-%m-%dT%H:%M:%S.%fZ'', ''%Y-%m-%dT%H:%M:%SZ'']"

fun try_formats :: "strptime \<Rightarrow> string \<Rightarrow> string list \<Rightarrow> datetime option" where
  "try_formats strp date_str [] = None"
| "try_formats strp date_str (fmt # fmts) =
     (case strp date_str fmt of
        Some parsed_date \<Rightarrow> Some parsed_date
      | None \<Rightarrow> try_formats strp date_str fmts)"

definition parse_date :: "strptime \<Rightarrow> val \<Rightarrow> world \<Rightarrow> (error + datetime option) \<times> world" where
  "parse_date strp date_str w =
     (case date_str of
        VStr s \<Rightarrow>
          (case try_formats strp s date_formats of
             None \<Rightarrow> (Inr None, record_event (CouldNotParse s) w)
           | Some parsed_date \<Rightarrow> (Inr (Some parsed_date), w))
      | _ \<Rightarrow> (Inl TypeError, w))"

text \<open>
  \<open>getTrainingParticipantCounts\<close> (lines 25 to 53). \<open>SubmissionTime\<close> is the column
  \<open>Submission Time\<close>; \<open>EventRegistration\<close> stands for the Hebrew name of the column that
  holds the training.
\<close>

definition F_SubmissionTime :: string where "F_SubmissionTime = ''Submission Time''"
definition F_EventRegistration :: string where "F_EventRegistration = ''EventRegistration''"

fun count_registers ::
  "strptime \<Rightarrow> date \<Rightarrow> row list \<Rightarrow> int pydict \<Rightarrow> world \<Rightarrow> (error + int pydict) \<times> world" where
  "count_registers strp today [] training_dic w = (Inr training_dic, w)"
| "count_registers strp today (register # registers) training_dic w =
     (case getitem register F_SubmissionTime of
        Inl e \<Rightarrow> (Inl e, w)
      | Inr submission_time_str \<Rightarrow>
          (case parse_date strp submission_time_str w of
             (Inl e, w1) \<Rightarrow> (Inl e, w1)
           | (Inr None, w1) \<Rightarrow> count_registers strp today registers training_dic w1
           | (Inr (Some pharsed_date), w1) \<Rightarrow>
               if date_less (date_of pharsed_date) (minus_months today 2)
               then count_registers strp today registers training_dic w1
               else
                 (case getitem register F_EventRegistration of
                    Inl e \<Rightarrow> (Inl e, w1)
                  | Inr training \<Rightarrow>
                      count_registers strp today registers
                        (if training \<notin> set (map fst training_dic)
                         then AList.update training 1 training_dic
                         else AList.map_entry training (\<lambda>n. n + 1) training_dic)
                        w1)))"

definition getTrainingParticipantCounts ::
  "strptime \<Rightarrow> date \<Rightarrow> world \<Rightarrow> (error + int pydict) \<times> world" where
  "getTrainingParticipantCounts strp today w =
     (case get_rows Registrations [] w of
        (registers, w1) \<Rightarrow> count_registers strp today registers [] w1)"

text \<open>
  The report as the specification words it. A timestamp parses under the first format,
  in the order of the list, that accepts it. A registration is counted when its
  timestamp parses and its date is not before the day two months before today.
\<close>

definition spec_parse :: "strptime \<Rightarrow> string \<Rightarrow> datetime option" where
  "spec_parse strp s =
     (case List.find (\<lambda>fmt. strp s fmt \<noteq> None) date_formats of
        None \<Rightarrow> None
      | Some fmt \<Rightarrow> strp s fmt)"





lemma spec_parse_None:
  "spec_parse strp s = None \<longleftrightarrow> (\<forall>fmt\<in>set date_formats. strp s fmt = None)"
  by (auto simp: spec_parse_def find_None_iff split: option.splits dest: find_Some_iff [THEN iffD1])










text \<open>
  The scenario of the specification, for every parser and every day: three
  registrations for training \<open>A\<close> dated today, today and four months ago, and one for
  training \<open>B\<close> dated today, give \<open>{A: 2, B: 1}\<close>.
\<close>

lemma today_not_discarded: "\<not> date_less (y, m, d) (minus_months (y, m, d) 2)"
  by (simp add: date_less_def minus_months_def)

lemma four_months_ago_discarded:
  "date_less (minus_months (y, m, d) 4) (minus_months (y, m, d) 2)"
  by (simp add: date_less_def minus_months_def)

lemma training_counts_scenario:
  assumes "registrations w = [r1, r2, r3, r4]"
    and "getitem r1 F_SubmissionTime = Inr (VStr s1)" "try_formats strp s1 date_formats = Some p1"
    and "getitem r2 F_SubmissionTime = Inr (VStr s2)" "try_formats strp s2 date_formats = Some p2"
    and "getitem r3 F_SubmissionTime = Inr (VStr s3)" "try_formats strp s3 date_formats = Some p3"
    and "getitem r4 F_SubmissionTime = Inr (VStr s4)" "try_formats strp s4 date_formats = Some p4"
    and "date_of p1 = today" "date_of p2 = today" "date_of p3 = minus_months today 4"
        "date_of p4 = today"
    and "getitem r1 F_EventRegistration = Inr A" "getitem r2 F_EventRegistration = Inr A"
        "getitem r3 F_EventRegistration = Inr A" "getitem r4 F_EventRegistration = Inr B"
    and "A \<noteq> B"
  shows "fst (getTrainingParticipantCounts strp today w) = Inr [(A, 2), (B, 1)]"
proof -
  obtain y m d where t: "today = (y, m, d)"
    by (cases today) auto
  show ?thesis
    using assms today_not_discarded [of y m d] four_months_ago_discarded [of y m d]
    by (simp add: getTrainingParticipantCounts_def get_rows_def select_rows_def
          stored_rows_def parse_date_def t)
qed

end
